theory Spec2Isabelle
  imports Complex_Main
begin

section \<open>JavaScript values, functions and effects\<close>

text \<open>
  The module \<^verbatim>\<open>functions-tasks.js\<close> is a set of higher-order utilities. Their
  arguments are arbitrary JavaScript functions, which may read and write state of their
  own and may throw. The embedding makes this explicit:

  \<^item> a JavaScript value is a \<open>jsval\<close>. The functions that handle \<open>jsval\<close>s pass them on
    and never compute with them; \<open>JNum\<close> carries the value of a finite Number;
  \<^item> a call has an outcome \<open>jsval + jsval\<close>: \<open>Inl e\<close> when it throws \<open>e\<close> (JavaScript
    can throw any value), \<open>Inr v\<close> when it returns \<open>v\<close>;
  \<^item> a function value is a \<open>jsfun\<close>: its \<^verbatim>\<open>name\<close> property and its behaviour on an
    argument list and a world \<open>'w\<close>, the state that the function can reach (its own
    closure variables, the heap of objects, a random source, ...). The world is a type
    parameter: every theorem holds for every choice of it;
  \<^item> the variables captured by the closures that this module builds are kept outside the
    world, since nothing but the closure itself can name them. The functions given to
    \<^verbatim>\<open>retry\<close>, \<^verbatim>\<open>logger\<close> and \<^verbatim>\<open>partialUsingArguments\<close> are assumed to return or
    throw, and not to call back into the wrapper that is calling them. A function given
    to \<^verbatim>\<open>memoize\<close> may call its own wrapper: see the section on \<^verbatim>\<open>memoize\<close>;
  \<^item> every call that the module's code makes to a function it was given is recorded in a
    list of events, in program order. The events are an observation of the run only: no
    modelled function can read them.
\<close>

datatype jsval =
    JUndefined
  | JNull
  | JBool bool
  | JNum real
  | JStr string
  | JRef nat

type_synonym outcome = "jsval + jsval"

record 'w jsfun =
  fname :: string
  fcall :: "jsval list \<Rightarrow> 'w \<Rightarrow> outcome \<times> 'w"

datatype event =
    CallFunc "jsval list"
  | CallLog "jsval list"
  | CallStringify jsval

record 'w jsstate =
  world :: 'w
  events :: "event list"

text \<open>One call expression: the callee runs on the world, and the call is recorded.\<close>

definition invoke :: "event \<Rightarrow> ('w \<Rightarrow> 'r \<times> 'w) \<Rightarrow> 'w jsstate \<Rightarrow> 'r \<times> 'w jsstate" where
  "invoke ev f s =
     (case f (world s) of (r, w') \<Rightarrow> (r, \<lparr>world = w', events = events s @ [ev]\<rparr>))"

text \<open>A call of a function that the module was given, recorded under its role.\<close>

definition call_fn ::
  "(jsval list \<Rightarrow> event) \<Rightarrow> 'w jsfun \<Rightarrow> jsval list \<Rightarrow> 'w jsstate \<Rightarrow> outcome \<times> 'w jsstate" where
  "call_fn role f args s = invoke (role args) (fcall f args) s"

section \<open>Numbers\<close>

text \<open>
  Where the module computes with Numbers (the polynomial, the loop counter of
  \<^verbatim>\<open>retry\<close>, the counter of the id generator) the arithmetic is that of the language:
  IEEE 754 double precision, which rounds, overflows to the infinities and has
  \<^verbatim>\<open>NaN\<close>, and whose exponentiation is left to the implementation by the language
  standard. These operators are built into the language and are not code of the module, so
  the type \<open>'n\<close> of Numbers and the operators are parameters of the model: \<open>js_zero\<close> and
  \<open>js_one\<close> are the literals \<^verbatim>\<open>0\<close> and \<^verbatim>\<open>1\<close>, \<open>js_add\<close> is \<^verbatim>\<open>+\<close>, \<open>js_mul\<close> is \<^verbatim>\<open>*\<close>,
  \<open>js_less\<close> is \<^verbatim>\<open><\<close>, and \<open>js_pow x p\<close> is \<^verbatim>\<open>x ** p\<close> for the Number whose value is
  the natural number \<open>p\<close>. What is proved for every choice of them holds for the doubles;
  the instance \<open>binary64\<close> below makes the doubles concrete for the examples.
\<close>

record 'n numbers =
  js_zero :: 'n
  js_one :: 'n
  js_add :: "'n \<Rightarrow> 'n \<Rightarrow> 'n"
  js_mul :: "'n \<Rightarrow> 'n \<Rightarrow> 'n"
  js_pow :: "'n \<Rightarrow> nat \<Rightarrow> 'n"
  js_less :: "'n \<Rightarrow> 'n \<Rightarrow> bool"

section \<open>getPolynom\<close>

text \<open>
  \<^verbatim>\<open>Array.prototype.reduce(callback, initial)\<close>: a left fold whose callback also receives
  the index of the current element.
\<close>

fun reduce_from :: "('b \<Rightarrow> 'a \<Rightarrow> nat \<Rightarrow> 'b) \<Rightarrow> 'b \<Rightarrow> nat \<Rightarrow> 'a list \<Rightarrow> 'b" where
  "reduce_from f acc index [] = acc"
| "reduce_from f acc index (x # xs) = reduce_from f (f acc x index) (Suc index) xs"

definition reduce :: "('b \<Rightarrow> 'a \<Rightarrow> nat \<Rightarrow> 'b) \<Rightarrow> 'b \<Rightarrow> 'a list \<Rightarrow> 'b" where
  "reduce f initial xs = reduce_from f initial 0 xs"

text \<open>
  \<^verbatim>\<open>
  function getPolynom(...coefficients) {
    if (coefficients.length === 0) { return null; }
    return function pol(x) {
      return coefficients.reduce((sum, coeff, index) => {
        const power = coefficients.length - index - 1;
        return sum + coeff * x ** power;
      }, 0);
    };
  }
  \<close>
  \<open>None\<close> is the \<^verbatim>\<open>null\<close> result. The length of the array and the index handed to the
  callback are integers far below \<open>2^53\<close>, on which the subtractions are exact, and the
  index is below the length: \<^verbatim>\<open>power\<close> is the natural number \<open>length - index - 1\<close>.
  The sum, the product and the power are the language's.
\<close>

definition getPolynom :: "'n numbers \<Rightarrow> 'n list \<Rightarrow> ('n \<Rightarrow> 'n) option" where
  "getPolynom N coefficients =
     (if length coefficients = 0 then None
      else Some (\<lambda>x. reduce (\<lambda>sum coeff index.
                   let power = length coefficients - index - 1
                   in js_add N sum (js_mul N coeff (js_pow N x power))) (js_zero N) coefficients))"

text \<open>The expression \<^verbatim>\<open>getPolynom(...coefficients)(x)\<close>, when there is a function to call.\<close>

definition polynom_value :: "'n numbers \<Rightarrow> 'n list \<Rightarrow> 'n \<Rightarrow> 'n option" where
  "polynom_value N coefficients x =
     (case getPolynom N coefficients of None \<Rightarrow> None | Some pol \<Rightarrow> Some (pol x))"

section \<open>Closures with private state\<close>

text \<open>
  A closure that captures mutable variables is its environment (the captured variables)
  and its code. A call runs the code on the current environment and leaves the closure
  with the updated one. Each closure value carries its own environment. The code takes
  a bound on the depth of nested calls and has no result (\<open>None\<close>) when the nesting goes
  beyond it.
\<close>

record ('c, 'w) closure =
  env :: 'c
  code :: "nat \<Rightarrow> 'c \<Rightarrow> jsval list \<Rightarrow> 'w jsstate \<Rightarrow> (outcome \<times> 'c \<times> 'w jsstate) option"

definition call ::
  "nat \<Rightarrow> ('c, 'w) closure \<Rightarrow> jsval list \<Rightarrow> 'w jsstate
     \<Rightarrow> (outcome \<times> ('c, 'w) closure \<times> 'w jsstate) option" where
  "call depth f args s =
     (case code f depth (env f) args s of
        None \<Rightarrow> None
      | Some (r, c', s') \<Rightarrow> Some (r, f\<lparr>env := c'\<rparr>, s'))"

text \<open>A sequence of calls of one closure, one argument list per call.\<close>

fun call_seq ::
  "nat \<Rightarrow> ('c, 'w) closure \<Rightarrow> jsval list list \<Rightarrow> 'w jsstate
     \<Rightarrow> (outcome list \<times> ('c, 'w) closure \<times> 'w jsstate) option" where
  "call_seq depth f [] s = Some ([], f, s)"
| "call_seq depth f (args # rest) s =
     (case call depth f args s of
        None \<Rightarrow> None
      | Some (r, f', s') \<Rightarrow>
          (case call_seq depth f' rest s' of
             None \<Rightarrow> None
           | Some (rs, f'', s'') \<Rightarrow> Some (r # rs, f'', s'')))"

section \<open>memoize\<close>

text \<open>
  The function given to \<^verbatim>\<open>memoize\<close> cannot name the variables \<^verbatim>\<open>cachedResult\<close> and
  \<^verbatim>\<open>isCached\<close>, but it can call the wrapper that \<^verbatim>\<open>memoize\<close> returned, as in
  \<^verbatim>\<open>const w = memoize(() => ... w() ...)\<close>, and the wrapper then runs on the same two
  variables. So the run of such a function is either finished, with an outcome and a
  world, or it is at a call of the wrapper, with the arguments of that call, the world
  at that moment, and what the function goes on to do with the outcome of the call and
  the world after it.
\<close>

datatype 'w run =
    Finished outcome 'w
  | Reenter "jsval list" 'w "outcome \<Rightarrow> 'w \<Rightarrow> 'w run"

type_synonym 'w reentrant = "jsval list \<Rightarrow> 'w \<Rightarrow> 'w run"

text \<open>A function that never calls the wrapper.\<close>

definition plain :: "'w jsfun \<Rightarrow> 'w reentrant" where
  "plain f = (\<lambda>args w. case fcall f args w of (r, w') \<Rightarrow> Finished r w')"

text \<open>
  Running a function, given what a call of the wrapper does: the captured variables
  \<open>cell\<close> pass through the nested calls of the wrapper.
\<close>

primrec run_with ::
  "(jsval list \<Rightarrow> 'c \<Rightarrow> 'w jsstate \<Rightarrow> (outcome \<times> 'c \<times> 'w jsstate) option) \<Rightarrow> 'w run
     \<Rightarrow> 'c \<Rightarrow> 'w jsstate \<Rightarrow> (outcome \<times> 'c \<times> 'w jsstate) option" where
  "run_with wrapper (Finished r w') cell s = Some (r, cell, s\<lparr>world := w'\<rparr>)"
| "run_with wrapper (Reenter args w' k) cell s =
     (case wrapper args cell (s\<lparr>world := w'\<rparr>) of
        None \<Rightarrow> None
      | Some (r, cell', s') \<Rightarrow> run_with wrapper (k r (world s')) cell' s')"

text \<open>
  \<^verbatim>\<open>
  function memoize(func) {
    let cachedResult;
    let isCached = false;
    return () => {
      if (!isCached) {
        cachedResult = func();
        isCached = true;
      }
      return cachedResult;
    };
  }
  \<close>
  The arrow function declares no parameter: whatever arguments it is called with are
  dropped. When \<^verbatim>\<open>func()\<close> throws, the two assignments are skipped. The first argument
  of \<open>memoize_wrapper\<close> bounds the depth of the calls of the wrapper inside one another: a
  wrapper called from \<^verbatim>\<open>func\<close> has one level less, and at depth \<open>0\<close> there is no result.
  The call of \<^verbatim>\<open>func\<close> is recorded when it starts.
\<close>

record memo_cell =
  cachedResult :: jsval
  isCached :: bool

primrec memoize_wrapper ::
  "nat \<Rightarrow> 'w reentrant \<Rightarrow> memo_cell \<Rightarrow> jsval list \<Rightarrow> 'w jsstate
     \<Rightarrow> (outcome \<times> memo_cell \<times> 'w jsstate) option" where
  "memoize_wrapper 0 func cell args s = None"
| "memoize_wrapper (Suc depth) func cell args s =
     (if \<not> isCached cell then
        (case run_with (\<lambda>args' cell' s'. memoize_wrapper depth func cell' args' s')
                (func [] (world s)) cell (s\<lparr>events := events s @ [CallFunc []]\<rparr>) of
           None \<Rightarrow> None
         | Some (Inl e, cell', s') \<Rightarrow> Some (Inl e, cell', s')
         | Some (Inr v, cell', s') \<Rightarrow>
             (let cell1 = cell'\<lparr>cachedResult := v\<rparr>;
                  cell2 = cell1\<lparr>isCached := True\<rparr>
              in Some (Inr (cachedResult cell2), cell2, s')))
      else Some (Inr (cachedResult cell), cell, s))"

definition memoize :: "'w reentrant \<Rightarrow> (memo_cell, 'w) closure" where
  "memoize func =
     \<lparr>env = \<lparr>cachedResult = JUndefined, isCached = False\<rparr>,
      code = (\<lambda>depth. memoize_wrapper depth func)\<rparr>"

section \<open>retry\<close>

text \<open>
  \<^verbatim>\<open>
  function retry(func, attempts) {
    return () => {
      let lastError;
      for (let i = 0; i < attempts; i += 1) {
        try { return func(); } catch (error) { lastError = error; }
      }
      throw lastError;
    };
  }
  \<close>
  \<^verbatim>\<open>attempts\<close> and the counter \<^verbatim>\<open>i\<close> are Numbers, compared and incremented by the
  language. The loop need not end: with \<^verbatim>\<open>attempts = Infinity\<close> the counter stays below
  \<^verbatim>\<open>attempts\<close> for ever. The result \<open>None\<close> is a wrapper that does not return.
\<close>

partial_function (option) retry_loop ::
  "'n numbers \<Rightarrow> 'w jsfun \<Rightarrow> 'n \<Rightarrow> 'n \<Rightarrow> jsval \<Rightarrow> 'w jsstate \<Rightarrow> (outcome \<times> 'w jsstate) option" where
  "retry_loop N func attempts i lastError s =
     (if js_less N i attempts then
        (case call_fn CallFunc func [] s of
           (Inr v, s') \<Rightarrow> Some (Inr v, s')
         | (Inl error, s') \<Rightarrow> retry_loop N func attempts (js_add N i (js_one N)) error s')
      else Some (Inl lastError, s))"

definition retry ::
  "'n numbers \<Rightarrow> 'w jsfun \<Rightarrow> 'n \<Rightarrow> jsval list \<Rightarrow> 'w jsstate \<Rightarrow> (outcome \<times> 'w jsstate) option" where
  "retry N func attempts = (\<lambda>args s. retry_loop N func attempts (js_zero N) JUndefined s)"

section \<open>logger\<close>

text \<open>
  \<^verbatim>\<open>JSON.stringify\<close> is a built-in of the language, not code of the module, and is a
  parameter of the model: on a value it returns a string or \<^verbatim>\<open>undefined\<close> (\<open>None\<close>), or
  throws, and it may read and change the world (the objects the value refers to, their
  \<^verbatim>\<open>toJSON\<close> methods).
\<close>

type_synonym 'w stringifier = "jsval \<Rightarrow> 'w \<Rightarrow> (jsval + string option) \<times> 'w"

text \<open>
  \<^verbatim>\<open>Array.prototype.map\<close> with a callback that has effects: the elements are visited
  from left to right, and the first exception ends the traversal.
\<close>

fun array_map ::
  "('a \<Rightarrow> 's \<Rightarrow> (jsval + 'b) \<times> 's) \<Rightarrow> 'a list \<Rightarrow> 's \<Rightarrow> (jsval + 'b list) \<times> 's" where
  "array_map f [] s = (Inr [], s)"
| "array_map f (x # xs) s =
     (case f x s of
        (Inl e, s') \<Rightarrow> (Inl e, s')
      | (Inr y, s') \<Rightarrow>
          (case array_map f xs s' of
             (Inl e, s'') \<Rightarrow> (Inl e, s'')
           | (Inr ys, s'') \<Rightarrow> (Inr (y # ys), s'')))"

text \<open>
  \<^verbatim>\<open>Array.prototype.join\<close> on an array of strings and \<^verbatim>\<open>undefined\<close>s: an
  \<^verbatim>\<open>undefined\<close> element contributes the empty string.
\<close>

fun join :: "string option list \<Rightarrow> string \<Rightarrow> string" where
  "join [] sep = []"
| "join [x] sep = (case x of None \<Rightarrow> [] | Some str \<Rightarrow> str)"
| "join (x # y # ys) sep = (case x of None \<Rightarrow> [] | Some str \<Rightarrow> str) @ sep @ join (y # ys) sep"

text \<open>
  \<^verbatim>\<open>
  function logger(func, logFunc) {
    return function wrapper(...args) {
      const funcName = func.name;
      const argsString = args.map((arg) => JSON.stringify(arg)).join(',');

      logFunc(`${funcName}(${argsString}) starts`);
      const result = func(...args);
      logFunc(`${funcName}(${argsString}) ends`);

      return result;
    };
  }
  \<close>
  \<open>log_line\<close> is the template literal of the two log calls.
\<close>

definition log_line :: "string \<Rightarrow> string \<Rightarrow> string \<Rightarrow> string" where
  "log_line funcName argsString suffix = funcName @ ''('' @ argsString @ '') '' @ suffix"

definition logger ::
  "'w stringifier \<Rightarrow> 'w jsfun \<Rightarrow> 'w jsfun \<Rightarrow> jsval list \<Rightarrow> 'w jsstate \<Rightarrow> outcome \<times> 'w jsstate" where
  "logger stringify func logFunc = (\<lambda>args s.
     let funcName = fname func in
     case array_map (\<lambda>arg. invoke (CallStringify arg) (stringify arg)) args s of
       (Inl e, s1) \<Rightarrow> (Inl e, s1)
     | (Inr strs, s1) \<Rightarrow>
         (let argsString = join strs '','' in
          case call_fn CallLog logFunc [JStr (log_line funcName argsString ''starts'')] s1 of
            (Inl e, s2) \<Rightarrow> (Inl e, s2)
          | (Inr _, s2) \<Rightarrow>
              (case call_fn CallFunc func args s2 of
                 (Inl e, s3) \<Rightarrow> (Inl e, s3)
               | (Inr result, s3) \<Rightarrow>
                   (case call_fn CallLog logFunc [JStr (log_line funcName argsString ''ends'')] s3 of
                      (Inl e, s4) \<Rightarrow> (Inl e, s4)
                    | (Inr _, s4) \<Rightarrow> (Inr result, s4)))))"

section \<open>partialUsingArguments\<close>

text \<open>
  \<^verbatim>\<open>
  function partialUsingArguments(fn, ...args1) {
    return function ar(...args2) { return fn(...args1, ...args2); };
  }
  \<close>
\<close>

definition partialUsingArguments ::
  "'w jsfun \<Rightarrow> jsval list \<Rightarrow> jsval list \<Rightarrow> 'w jsstate \<Rightarrow> outcome \<times> 'w jsstate" where
  "partialUsingArguments fn args1 = (\<lambda>args2 s. call_fn CallFunc fn (args1 @ args2) s)"

section \<open>getIdGeneratorFunction\<close>

text \<open>
  \<^verbatim>\<open>
  function getIdGeneratorFunction(startFrom) {
    let value = startFrom;
    return () => { const result = value; value += 1; return result; };
  }
  \<close>
  Whether two generators share their counter is a question of aliasing, so the captured
  variables live in an explicit store here. Each call of \<^verbatim>\<open>getIdGeneratorFunction\<close>
  creates a new variable \<^verbatim>\<open>value\<close> at the next unused address, and the generator it
  returns is identified by that address. The counter is a Number and \<^verbatim>\<open>value += 1\<close> is
  the language's addition.
\<close>

record 'n store =
  cells :: "nat \<Rightarrow> 'n"
  fresh :: nat

definition getIdGeneratorFunction :: "'n \<Rightarrow> 'n store \<Rightarrow> nat \<times> 'n store" where
  "getIdGeneratorFunction startFrom st =
     (let a = fresh st
      in (a, \<lparr>cells = (cells st)(a := startFrom), fresh = Suc a\<rparr>))"

definition generator :: "'n numbers \<Rightarrow> nat \<Rightarrow> 'n store \<Rightarrow> 'n \<times> 'n store" where
  "generator N a st =
     (let result = cells st a;
          st' = st\<lparr>cells := (cells st)(a := js_add N (cells st a) (js_one N))\<rparr>
      in (result, st'))"

text \<open>A schedule of generator calls; each result is paired with the generator called.\<close>

fun call_generators :: "'n numbers \<Rightarrow> nat list \<Rightarrow> 'n store \<Rightarrow> (nat \<times> 'n) list \<times> 'n store" where
  "call_generators N [] st = ([], st)"
| "call_generators N (g # gs) st =
     (case generator N g st of (r, st') \<Rightarrow>
        (case call_generators N gs st' of (rs, st'') \<Rightarrow> ((g, r) # rs, st'')))"

definition results_of :: "nat \<Rightarrow> (nat \<times> 'n) list \<Rightarrow> 'n list" where
  "results_of g rs = map snd (filter (\<lambda>p. fst p = g) rs)"

section \<open>The doubles\<close>

text \<open>
  IEEE 754 binary64 with rounding to nearest, ties to even, as an instance of the
  operators. A double is a real number of the form \<open>m * 2^e\<close> with \<open>\<bar>m\<bar> < 2^53\<close> and
  \<open>- 1074 \<le> e\<close>, of magnitude below \<open>2^1024\<close>, or one of the infinities, or \<^verbatim>\<open>NaN\<close>. The two
  zeros are not told apart, as \<^verbatim>\<open>===\<close> does not tell them apart. \<open>round64\<close> rounds a real
  to the nearest such number with the exponent unbounded above: \<open>binade x\<close> is the exponent
  of the power of two at or below \<open>\<bar>x\<bar>\<close> (not below that of the smallest normal number),
  and the spacing of the doubles around \<open>x\<close> is \<open>2\<close> to the power \<open>binade x - 52\<close>.
  \<open>to_double\<close> turns what has gone out of range into an infinity.
\<close>

definition round_half_even :: "real \<Rightarrow> int" where
  "round_half_even x =
     (let f = \<lfloor>x\<rfloor>
      in if x - of_int f < 1 / 2 then f
         else if 1 / 2 < x - of_int f then f + 1
         else if even f then f else f + 1)"

definition binade :: "real \<Rightarrow> int" where
  "binade x = max \<lfloor>log 2 \<bar>x\<bar>\<rfloor> (- 1022)"

definition round64 :: "real \<Rightarrow> real" where
  "round64 x =
     (if x = 0 then 0
      else of_int (round_half_even (x / 2 powi (binade x - 52))) * 2 powi (binade x - 52))"

datatype double = Finite real | PosInf | NegInf | NaN

definition to_double :: "real \<Rightarrow> double" where
  "to_double x =
     (let y = round64 x
      in if 2 ^ 1024 \<le> y then PosInf else if y \<le> - (2 ^ 1024) then NegInf else Finite y)"

fun dadd :: "double \<Rightarrow> double \<Rightarrow> double" where
  "dadd (Finite x) (Finite y) = to_double (x + y)"
| "dadd NaN b = NaN"
| "dadd a NaN = NaN"
| "dadd PosInf NegInf = NaN"
| "dadd NegInf PosInf = NaN"
| "dadd PosInf b = PosInf"
| "dadd a PosInf = PosInf"
| "dadd NegInf b = NegInf"
| "dadd a NegInf = NegInf"

fun dsign :: "double \<Rightarrow> real" where
  "dsign (Finite x) = sgn x"
| "dsign PosInf = 1"
| "dsign NegInf = - 1"
| "dsign NaN = 0"

text \<open>A product with an infinity is \<^verbatim>\<open>NaN\<close> when the other factor is zero or \<^verbatim>\<open>NaN\<close>.\<close>

fun dmul :: "double \<Rightarrow> double \<Rightarrow> double" where
  "dmul (Finite x) (Finite y) = to_double (x * y)"
| "dmul a b =
     (if a = NaN \<or> b = NaN \<or> dsign a * dsign b = 0 then NaN
      else if 0 < dsign a * dsign b then PosInf else NegInf)"

fun dless :: "double \<Rightarrow> double \<Rightarrow> bool" where
  "dless (Finite x) (Finite y) = (x < y)"
| "dless NegInf (Finite y) = True"
| "dless NegInf PosInf = True"
| "dless (Finite x) PosInf = True"
| "dless a b = False"

text \<open>
  \<^verbatim>\<open>x ** p\<close> for a natural number \<open>p\<close>. The language fixes the cases of a zero exponent
  and of a base that is not finite; for a finite base it asks for an approximation of
  the power, taken here to be the nearest double.
\<close>

fun dpow :: "double \<Rightarrow> nat \<Rightarrow> double" where
  "dpow a 0 = Finite 1"
| "dpow (Finite x) p = to_double (x ^ p)"
| "dpow NaN p = NaN"
| "dpow PosInf p = PosInf"
| "dpow NegInf p = (if odd p then NegInf else PosInf)"

definition binary64 :: "double numbers" where
  "binary64 =
     \<lparr>js_zero = Finite 0, js_one = Finite 1,
      js_add = dadd, js_mul = dmul, js_pow = dpow, js_less = dless\<rparr>"

text \<open>The real value of a finite double.\<close>

fun real_of :: "double \<Rightarrow> real" where
  "real_of (Finite x) = x"
| "real_of a = 0"

section \<open>Example functions\<close>

text \<open>
  Concrete functions on which the theorems below are instantiated. In the first four the
  world is the number of calls made so far.
\<close>

definition counting :: "nat jsfun" where
  "counting = \<lparr>fname = ''counting'',
     fcall = (\<lambda>args calls. (Inr (JNum (real calls)), Suc calls))\<rparr>"


text \<open>
  The function of the example in the documentation of \<^verbatim>\<open>retry\<close>:
  \<^verbatim>\<open>() => { if (++attempt % 2) throw new Error('test'); else return attempt; }\<close>
\<close>

definition flaky :: "nat jsfun" where
  "flaky = \<lparr>fname = ''flaky'',
     fcall = (\<lambda>args attempt.
        if Suc attempt mod 2 \<noteq> 0 then (Inl (JStr ''test''), Suc attempt)
        else (Inr (JNum (real (Suc attempt))), Suc attempt))\<rparr>"

definition failing :: "nat jsfun" where
  "failing = \<lparr>fname = ''failing'',
     fcall = (\<lambda>args attempt. (Inl (JNum (real (Suc attempt))), Suc attempt))\<rparr>"

text \<open>
  Two functions that call the wrapper they are memoized in, \<^verbatim>\<open>w\<close>, on their first call:
  \<^verbatim>\<open>() => { n++; if (n === 1) { w(); return 'outer'; } return 'inner'; }\<close> and
  \<^verbatim>\<open>() => { n++; if (n === 1) { w(); throw 'e'; } return 'inner'; }\<close>.
  The world is \<^verbatim>\<open>n\<close>.
\<close>

definition reenters_then_returns :: "nat reentrant" where
  "reenters_then_returns = (\<lambda>args n.
     if Suc n = 1 then Reenter [] (Suc n) (\<lambda>r w. Finished (Inr (JStr ''outer'')) w)
     else Finished (Inr (JStr ''inner'')) (Suc n))"


text \<open>
  For \<^verbatim>\<open>logger\<close> the world is a pair: the element of a one-element boolean array, to
  which the value \<open>JRef 0\<close> refers, and the list of the argument lists that a collecting
  log function has received.
\<close>

type_synonym logworld = "bool \<times> jsval list list"

definition toggle :: "logworld jsfun" where
  "toggle = \<lparr>fname = ''toggle'',
     fcall = (\<lambda>args (b, received). (Inr (JNum 7), (\<not> b, received)))\<rparr>"

definition thrower :: "logworld jsfun" where
  "thrower = \<lparr>fname = ''thrower'',
     fcall = (\<lambda>args w. (Inl (JStr ''boom''), w))\<rparr>"

definition collector :: "logworld jsfun" where
  "collector = \<lparr>fname = ''collector'',
     fcall = (\<lambda>args (b, received). (Inr JUndefined, (b, received @ [args])))\<rparr>"

definition broken_log :: "logworld jsfun" where
  "broken_log = \<lparr>fname = ''broken_log'',
     fcall = (\<lambda>args w. (Inl (JStr ''log failed''), w))\<rparr>"

definition log_once :: "logworld jsfun" where
  "log_once = \<lparr>fname = ''log_once'',
     fcall = (\<lambda>args (b, received).
        if received = [] then (Inr JUndefined, (b, received @ [args]))
        else (Inl (JStr ''log failed''), (b, received)))\<rparr>"

text \<open>
  A serialiser for the examples: it agrees with \<^verbatim>\<open>JSON.stringify\<close> on
  \<^verbatim>\<open>undefined\<close>, \<^verbatim>\<open>null\<close>, booleans and the array of the world, and gives up on other
  values.
\<close>

definition toy_stringify :: "logworld stringifier" where
  "toy_stringify v w =
     (case v of
        JUndefined \<Rightarrow> (Inr None, w)
      | JNull \<Rightarrow> (Inr (Some ''null''), w)
      | JBool b \<Rightarrow> (Inr (Some (if b then ''true'' else ''false'')), w)
      | JRef a \<Rightarrow> (Inr (Some (if fst w then ''[true]'' else ''[false]'')), w)
      | _ \<Rightarrow> (Inl (JStr ''unsupported''), w))"

text \<open>
  The function of the example in the documentation of \<^verbatim>\<open>partialUsingArguments\<close>,
  \<^verbatim>\<open>function(x1,x2,x3,x4) { return x1 + x2 + x3 + x4; }\<close>, on four strings; the
  example gives up on other arguments.
\<close>

definition concat4 :: "unit jsfun" where
  "concat4 = \<lparr>fname = ''fn'',
     fcall = (\<lambda>args w.
        case args of
          [JStr x1, JStr x2, JStr x3, JStr x4] \<Rightarrow> (Inr (JStr (x1 @ x2 @ x3 @ x4)), w)
        | _ \<Rightarrow> (Inl (JStr ''unsupported''), w))\<rparr>"

definition empty_store :: "double store" where
  "empty_store = \<lparr>cells = (\<lambda>a. Finite 0), fresh = 0\<rparr>"

section \<open>Runs told without the code\<close>

text \<open>
  What successive calls of \<open>func\<close> do, told without the loop of \<^verbatim>\<open>retry\<close>: the outcomes
  of the first \<open>n\<close> calls made one after the other from world \<open>w\<close>, and the world after
  them.
\<close>

fun outcomes :: "'w jsfun \<Rightarrow> nat \<Rightarrow> 'w \<Rightarrow> outcome list" where
  "outcomes func 0 w = []"
| "outcomes func (Suc n) w = (case fcall func [] w of (r, w') \<Rightarrow> r # outcomes func n w')"

fun world_after :: "'w jsfun \<Rightarrow> nat \<Rightarrow> 'w \<Rightarrow> 'w" where
  "world_after func 0 w = w"
| "world_after func (Suc n) w = world_after func n (snd (fcall func [] w))"

text \<open>
  One increment, \<^verbatim>\<open>v += 1\<close>, and the value of the counter of \<^verbatim>\<open>retry\<close> after \<open>j\<close>
  increments from \<^verbatim>\<open>0\<close>.
\<close>

definition increment :: "'n numbers \<Rightarrow> 'n \<Rightarrow> 'n" where
  "increment N v = js_add N v (js_one N)"

definition counter :: "'n numbers \<Rightarrow> nat \<Rightarrow> 'n" where
  "counter N j = (increment N ^^ j) (js_zero N)"

text \<open>
  The polynomial as the language evaluates it: the term of coefficient \<open>i\<close> is
  \<^verbatim>\<open>c_i * x ** (n - 1 - i)\<close>, and \<open>partial_sum N cs x k\<close> is \<^verbatim>\<open>0 + t_0 + ... + t_(k-1)\<close>
  added from left to right. \<open>exact_steps\<close> says, for a reading \<open>val\<close> of Numbers as reals,
  that no operation of that evaluation rounds: each term has the value of its exact
  product and each sum the value of its exact sum.
\<close>

definition term_at :: "'n numbers \<Rightarrow> 'n list \<Rightarrow> 'n \<Rightarrow> nat \<Rightarrow> 'n" where
  "term_at N cs x i = js_mul N (cs ! i) (js_pow N x (length cs - 1 - i))"

definition partial_sum :: "'n numbers \<Rightarrow> 'n list \<Rightarrow> 'n \<Rightarrow> nat \<Rightarrow> 'n" where
  "partial_sum N cs x k = foldl (js_add N) (js_zero N) (map (term_at N cs x) [0..<k])"

definition exact_steps :: "('n \<Rightarrow> real) \<Rightarrow> 'n numbers \<Rightarrow> 'n list \<Rightarrow> 'n \<Rightarrow> bool" where
  "exact_steps val N cs x \<longleftrightarrow>
     val (js_zero N) = 0 \<and>
     (\<forall>i<length cs.
        val (term_at N cs x i) = val (cs ! i) * val x ^ (length cs - 1 - i) \<and>
        val (js_add N (partial_sum N cs x i) (term_at N cs x i)) =
          val (partial_sum N cs x i) + val (term_at N cs x i))"

section \<open>Calls and their records\<close>

lemma invoke_returns:
  "f (world s) = (r, w') \<Longrightarrow> invoke ev f s = (r, \<lparr>world = w', events = events s @ [ev]\<rparr>)"
  by (simp add: invoke_def)

lemma call_fn_returns:
  "fcall f args (world s) = (r, w') \<Longrightarrow>
     call_fn role f args s = (r, \<lparr>world = w', events = events s @ [role args]\<rparr>)"
  by (simp add: call_fn_def invoke_def)

lemma upt_shift: "[0..<Suc n] = 0 # map Suc [0..<n]"
  by (simp add: upt_conv_Cons map_Suc_upt del: upt_Suc)

section \<open>Rounding of the doubles\<close>

lemma round_half_even_of_int [simp]: "round_half_even (of_int z) = z"
  by (simp add: round_half_even_def)

lemma two_powr_int: "2 powr (real_of_int e) = (2::real) powi e"
  by (rule powr_real_of_int') simp_all

lemma floor_log2_eq:
  assumes "0 < x" "2 powi e \<le> x" "x < 2 powi (e + 1)"
  shows "\<lfloor>log 2 x\<rfloor> = e"
proof -
  have "2 powr (real_of_int e + 1) = (2::real) powi (e + 1)"
    using two_powr_int [of "e + 1"] by simp
  then show ?thesis
    using assms floor_log_eq_powr_iff [of x 2 e] two_powr_int [of e] by simp
qed

lemma floor_log2_bounds:
  assumes "0 < x"
  shows "2 powi \<lfloor>log 2 x\<rfloor> \<le> x \<and> x < 2 powi (\<lfloor>log 2 x\<rfloor> + 1)"
proof -
  have "2 powr (real_of_int \<lfloor>log 2 x\<rfloor> + 1) = (2::real) powi (\<lfloor>log 2 x\<rfloor> + 1)"
    using two_powr_int [of "\<lfloor>log 2 x\<rfloor> + 1"] by simp
  then show ?thesis
    using floor_log_eq_powr_iff [OF assms, of 2 "\<lfloor>log 2 x\<rfloor>"] two_powr_int [of "\<lfloor>log 2 x\<rfloor>"]
    by simp
qed

lemma binade_eq:
  assumes "2 powi e \<le> \<bar>x\<bar>" "\<bar>x\<bar> < 2 powi (e + 1)" "- 1022 \<le> e"
  shows "binade x = e"
proof -
  have "0 < \<bar>x\<bar>" using assms(1) by (smt (verit) zero_less_power_int)
  from floor_log2_eq [OF this assms(1,2)] assms(3) show ?thesis
    by (simp add: binade_def)
qed

text \<open>\<open>2^53 + 1\<close> lies half way between two doubles and goes to the even one.\<close>

lemma round64_tie: "round64 (2 ^ 53 + 1) = 2 ^ 53"
proof -
  have b: "binade (2 ^ 53 + 1) = 53"
    by (rule binade_eq) (simp_all add: power_int_def)
  show ?thesis
    unfolding round64_def b
    by (simp add: round_half_even_def power_int_def)
qed

lemma round64_exact:
  assumes "x / 2 powi (binade x - 52) = of_int z"
  shows "round64 x = x"
proof (cases "x = 0")
  case True
  then show ?thesis by (simp add: round64_def)
next
  case False
  have nz: "(2::real) powi (binade x - 52) \<noteq> 0" by simp
  from assms have "of_int z * 2 powi (binade x - 52) = x"
    using nz by (simp add: field_simps)
  with False assms show ?thesis
    by (simp add: round64_def)
qed

text \<open>The integers up to \<open>2^53\<close> in magnitude are doubles.\<close>

lemma round64_of_int:
  assumes "\<bar>m\<bar> \<le> 2 ^ 53"
  shows "round64 (of_int m) = of_int m"
proof (cases "m = 0")
  case True
  then show ?thesis by (simp add: round64_def)
next
  case False
  define x :: real where "x = of_int m"
  define e where "e = \<lfloor>log 2 \<bar>x\<bar>\<rfloor>"
  have pos: "0 < \<bar>x\<bar>" and ge1: "1 \<le> \<bar>x\<bar>" using False by (simp_all add: x_def)
  from floor_log2_bounds [OF pos]
  have lo: "2 powi e \<le> \<bar>x\<bar>" and hi: "\<bar>x\<bar> < 2 powi (e + 1)"
    by (simp_all add: e_def)
  have e0: "0 \<le> e"
  proof (rule ccontr)
    assume "\<not> 0 \<le> e"
    then have "e + 1 \<le> 0" by simp
    then have "(2::real) powi (e + 1) \<le> 2 powi 0"
      by (intro power_int_increasing) simp_all
    with hi ge1 show False by simp
  qed
  have b: "binade x = e" using e0 by (simp add: binade_def e_def)
  have small: "\<bar>x\<bar> \<le> 2 ^ 53" using assms by (simp add: x_def flip: of_int_abs)
  have le53: "e \<le> 53"
  proof (rule ccontr)
    assume "\<not> e \<le> 53"
    then have "54 \<le> e" by simp
    then have "(2::real) powi 54 \<le> 2 powi e"
      by (intro power_int_increasing) simp_all
    with lo small show False by (simp add: power_int_def)
  qed
  have "\<exists>z. x / 2 powi (e - 52) = of_int z"
  proof (cases "e \<le> 52")
    case True
    then have "(2::real) powi (e - 52) = 1 / 2 ^ nat (52 - e)"
      by (simp add: power_int_def field_simps)
    then have "x / 2 powi (e - 52) = of_int (m * 2 ^ nat (52 - e))"
      by (simp add: x_def)
    then show ?thesis by blast
  next
    case False
    with le53 have e: "e = 53" by simp
    with lo small have "\<bar>x\<bar> = 2 ^ 53" by (simp add: power_int_def)
    then have "\<bar>m\<bar> = 2 ^ 53" by (simp add: x_def flip: of_int_abs)
    then have "m = 2 ^ 53 \<or> m = - (2 ^ 53)" by linarith
    then have "x / 2 powi (e - 52) = of_int (m div 2)"
      using e by (auto simp: x_def)
    then show ?thesis by blast
  qed
  then obtain z where "x / 2 powi (binade x - 52) = of_int z" using b by auto
  from round64_exact [OF this] show ?thesis by (simp add: x_def)
qed

lemma to_double_of_int:
  assumes "\<bar>m\<bar> \<le> 2 ^ 53"
  shows "to_double (of_int m) = Finite (of_int m)"
proof -
  have "\<bar>real_of_int m\<bar> \<le> 2 ^ 53" using assms by (simp flip: of_int_abs)
  moreover have "(2::real) ^ 53 < 2 ^ 1024" by simp
  ultimately have "\<not> 2 ^ 1024 \<le> real_of_int m" "\<not> real_of_int m \<le> - (2 ^ 1024)"
    by linarith+
  then show ?thesis
    by (simp add: to_double_def round64_of_int [OF assms] Let_def)
qed

lemma to_double_numeral [simp]:
  "numeral n \<le> (2 ^ 53 :: int) \<Longrightarrow> to_double (numeral n) = Finite (numeral n)"
  using to_double_of_int [of "numeral n"] by simp

lemma to_double_zero [simp]: "to_double 0 = Finite 0"
  using to_double_of_int [of 0] by simp

lemma to_double_one [simp]: "to_double 1 = Finite 1"
  using to_double_of_int [of 1] by simp

lemma to_double_tie: "to_double (2 ^ 53 + 1) = Finite (2 ^ 53)"
  unfolding to_double_def round64_tie by simp

lemma dpow_Finite: "0 < p \<Longrightarrow> dpow (Finite x) p = to_double (x ^ p)"
  by (cases p) simp_all

lemma binary64_simps:
  "js_zero binary64 = Finite 0" "js_one binary64 = Finite 1"
  "js_add binary64 = dadd" "js_mul binary64 = dmul"
  "js_pow binary64 = dpow" "js_less binary64 = dless"
  by (simp_all add: binary64_def)

text \<open>Adding one to an integer is exact as long as the sum is at most \<open>2^53\<close> in magnitude.\<close>

lemma increment_binary64_int:
  assumes "\<bar>z + 1\<bar> \<le> 2 ^ 53"
  shows "increment binary64 (Finite (of_int z)) = Finite (of_int (z + 1))"
proof -
  have "increment binary64 (Finite (of_int z)) = to_double (of_int (z + 1))"
    by (simp add: increment_def binary64_simps)
  with to_double_of_int [OF assms] show ?thesis by simp
qed

lemma increments_binary64_int:
  "\<bar>z\<bar> + int j \<le> 2 ^ 53 \<Longrightarrow>
     (increment binary64 ^^ j) (Finite (of_int z)) = Finite (of_int z + real j)"
proof (induction j)
  case 0
  show ?case by simp
next
  case (Suc j)
  then have "(increment binary64 ^^ j) (Finite (of_int z)) = Finite (of_int (z + int j))"
    by simp
  moreover from Suc.prems have "\<bar>z + int j + 1\<bar> \<le> 2 ^ 53" by simp
  ultimately show ?case
    using increment_binary64_int [of "z + int j"] by (simp add: add.assoc)
qed

section \<open>Properties of getPolynom\<close>

lemma reduce_from_polynom:
  "reduce_from (\<lambda>sum coeff index.
       let power = n - index - 1 in js_add N sum (js_mul N coeff (js_pow N x power))) acc k cs
     = foldl (js_add N) acc
         (map (\<lambda>i. js_mul N (cs ! i) (js_pow N x (n - (k + i) - 1))) [0..<length cs])"
proof (induction cs arbitrary: acc k)
  case Nil
  show ?case by simp
next
  case (Cons c cs)
  have "map (\<lambda>i. js_mul N ((c # cs) ! i) (js_pow N x (n - (k + i) - 1))) [0..<Suc (length cs)]
          = js_mul N c (js_pow N x (n - k - 1)) #
            map (\<lambda>i. js_mul N (cs ! i) (js_pow N x (n - (Suc k + i) - 1))) [0..<length cs]"
    by (subst upt_shift) (simp add: comp_def del: upt_Suc)
  then show ?case
    using Cons.IH [of "js_add N acc (js_mul N c (js_pow N x (n - k - 1)))" "Suc k"]
    by (simp add: Let_def del: upt_Suc)
qed

lemma getPolynom_partial_sum:
  "cs \<noteq> [] \<Longrightarrow>
     getPolynom N cs = Some (\<lambda>x. partial_sum N cs x (length cs))"
proof -
  have "term_at N cs x = (\<lambda>i. js_mul N (cs ! i) (js_pow N x (length cs - (0 + i) - 1)))" for x
    by (rule ext) (simp add: term_at_def)
  then have "reduce (\<lambda>sum coeff index.
        let power = length cs - index - 1
        in js_add N sum (js_mul N coeff (js_pow N x power))) (js_zero N) cs
      = partial_sum N cs x (length cs)" for x
    unfolding reduce_def reduce_from_polynom partial_sum_def by simp
  then show "cs \<noteq> [] \<Longrightarrow> ?thesis"
    unfolding getPolynom_def by simp
qed

lemma partial_sum_Suc:
  "partial_sum N cs x (Suc k) = js_add N (partial_sum N cs x k) (term_at N cs x k)"
  by (simp add: partial_sum_def)

lemma exact_partial_sum:
  "exact_steps val N cs x \<Longrightarrow> k \<le> length cs \<Longrightarrow>
     val (partial_sum N cs x k) = (\<Sum>i<k. val (cs ! i) * val x ^ (length cs - 1 - i))"
proof (induction k)
  case 0
  then show ?case by (simp add: partial_sum_def exact_steps_def)
next
  case (Suc k)
  then have k: "k < length cs" by simp
  with Suc.prems(1) have
    "val (term_at N cs x k) = val (cs ! k) * val x ^ (length cs - 1 - k)"
    "val (js_add N (partial_sum N cs x k) (term_at N cs x k)) =
       val (partial_sum N cs x k) + val (term_at N cs x k)"
    by (simp_all add: exact_steps_def)
  with Suc.IH [OF Suc.prems(1)] k show ?case
    by (simp add: partial_sum_Suc)
qed

text \<open>
  Claim C4, as the code has it. With no coefficient \<open>getPolynom\<close> returns \<^verbatim>\<open>null\<close> and no
  function. For one or more coefficients \<open>c0 .. c(n-1)\<close> it returns a function whose value
  at every \<open>x\<close> is the sum \<^verbatim>\<open>0 + c0 * x ** (n-1) + c1 * x ** (n-2) + ... + c(n-1) * x ** 0\<close>
  as the language computes it, each power, product and sum being the language's and
  the sums taken from left to right. Read as real numbers, that value is the polynomial
  \<open>c0*x^(n-1) + c1*x^(n-2) + ... + c(n-1)\<close> whenever none of these operations rounds.
\<close>

theorem getPolynom_evaluates:
  "getPolynom N [] = None \<and>
   (cs \<noteq> [] \<longrightarrow>
      (\<exists>pol. getPolynom N cs = Some pol \<and>
         (\<forall>x. pol x = partial_sum N cs x (length cs)) \<and>
         (\<forall>x val. exact_steps val N cs x \<longrightarrow>
            val (pol x) = (\<Sum>i<length cs. val (cs ! i) * val x ^ (length cs - 1 - i)))))"
proof (intro conjI impI)
  show "getPolynom N [] = None" by (simp add: getPolynom_def)
next
  assume "cs \<noteq> []"
  from getPolynom_partial_sum [OF this, of N] show
    "\<exists>pol. getPolynom N cs = Some pol \<and>
       (\<forall>x. pol x = partial_sum N cs x (length cs)) \<and>
       (\<forall>x val. exact_steps val N cs x \<longrightarrow>
          val (pol x) = (\<Sum>i<length cs. val (cs ! i) * val x ^ (length cs - 1 - i)))"
    by (auto simp: exact_partial_sum)
qed

theorem getPolynom_evaluates_witness:
  "[Finite 2, Finite 3, Finite 5] \<noteq> [] \<and>
   exact_steps real_of binary64 [Finite 2, Finite 3, Finite 5] (Finite 4) \<and>
   polynom_value binary64 [Finite 2, Finite 3, Finite 5] (Finite 4) = Some (Finite 49) \<and>
   real_of (Finite 49) = 2 * 4 ^ 2 + 3 * 4 + 5 \<and>
   getPolynom binary64 [] = None"
proof -
  let ?cs = "[Finite 2, Finite 3, Finite 5]"
  have t: "term_at binary64 ?cs (Finite 4) 0 = Finite 32"
    "term_at binary64 ?cs (Finite 4) (Suc 0) = Finite 12"
    "term_at binary64 ?cs (Finite 4) (Suc (Suc 0)) = Finite 5"
    by (simp_all add: term_at_def binary64_def dpow_Finite)
  have p: "partial_sum binary64 ?cs (Finite 4) 0 = Finite 0"
    "partial_sum binary64 ?cs (Finite 4) (Suc 0) = Finite 32"
    "partial_sum binary64 ?cs (Finite 4) (Suc (Suc 0)) = Finite 44"
    "partial_sum binary64 ?cs (Finite 4) (Suc (Suc (Suc 0))) = Finite 49"
    by (simp_all add: partial_sum_def t) (simp_all add: binary64_def)
  have exact: "exact_steps real_of binary64 ?cs (Finite 4)"
    unfolding exact_steps_def
    by (simp add: less_Suc_eq numeral_3_eq_3 t p, simp add: binary64_def numeral_2_eq_2)
  from getPolynom_evaluates [of binary64 ?cs] obtain pol where
    pol: "getPolynom binary64 ?cs = Some pol"
    and "\<forall>x. pol x = partial_sum binary64 ?cs x (length ?cs)"
    by auto
  then have "pol (Finite 4) = Finite 49"
    using p by (simp add: numeral_3_eq_3)
  with pol have "polynom_value binary64 ?cs (Finite 4) = Some (Finite 49)"
    by (simp add: polynom_value_def)
  with exact getPolynom_evaluates [of binary64 "[]"] show ?thesis
    by simp
qed

text \<open>
  The claim as it was stated gives the exact polynomial. At coefficients \<open>2^53\<close> and \<open>1\<close>
  and \<open>x = 1\<close> the polynomial is \<open>2^53 + 1\<close>, which is not a double: the sum rounds, and the
  function returns \<open>2^53\<close>.
\<close>

theorem getPolynom_exact_counterexample:
  "polynom_value binary64 [Finite (2 ^ 53), Finite 1] (Finite 1) = Some (Finite (2 ^ 53)) \<and>
   (2 ^ 53 * 1 ^ 1 + 1 :: real) = 2 ^ 53 + 1 \<and>
   Finite (2 ^ 53) \<noteq> Finite (2 ^ 53 + 1)"
proof -
  have m: "to_double (2 ^ 53) = Finite (2 ^ 53)"
    using to_double_of_int [of "2 ^ 53"] by simp
  have "polynom_value binary64 [Finite (2 ^ 53), Finite 1] (Finite 1) = Some (Finite (2 ^ 53))"
    using m to_double_tie
    by (simp add: polynom_value_def getPolynom_def reduce_def binary64_def dpow_Finite)
  then show ?thesis by simp
qed

section \<open>Properties of memoize\<close>


lemma memoize_wrapper_first:
  "\<not> isCached cell \<Longrightarrow> func [] (world s) = Finished (Inr v) w' \<Longrightarrow>
     memoize_wrapper (Suc d) func cell args s =
       Some (Inr v, cell\<lparr>cachedResult := v, isCached := True\<rparr>,
             \<lparr>world = w', events = events s @ [CallFunc []]\<rparr>)"
  by (simp add: Let_def)



text \<open>A deeper bound on the nesting changes no result.\<close>

lemma run_with_deeper:
  assumes "\<And>args c s x. wrapper args c s = Some x \<Longrightarrow> wrapper' args c s = Some x"
  shows "run_with wrapper r c s = Some x \<Longrightarrow> run_with wrapper' r c s = Some x"
proof (induction r arbitrary: c s x)
  case (Finished r w')
  then show ?case by simp
next
  case (Reenter args w' k)
  from Reenter.prems obtain r c' s' where
    inner: "wrapper args c (s\<lparr>world := w'\<rparr>) = Some (r, c', s')" and
    rest: "run_with wrapper (k r (world s')) c' s' = Some x"
    by (auto split: option.splits)
  have "run_with wrapper' (k r (world s')) c' s' = Some x"
    by (rule Reenter.IH [OF rangeI rangeI rest])
  with assms [OF inner] show ?case
    by simp
qed

lemma memoize_wrapper_deeper:
  "memoize_wrapper d func c args s = Some x \<Longrightarrow> memoize_wrapper (Suc d) func c args s = Some x"
proof (induction d arbitrary: c args s x)
  case 0
  then show ?case by simp
next
  case (Suc d)
  show ?case
  proof (cases "isCached c")
    case True
    with Suc.prems show ?thesis by simp
  next
    case False
    let ?start = "s\<lparr>events := events s @ [CallFunc []]\<rparr>"
    let ?inner = "\<lambda>d args' cell' s'. memoize_wrapper d func cell' args' s'"
    let ?store = "\<lambda>y. case y of
        None \<Rightarrow> None
      | Some (Inl e, cell', s') \<Rightarrow> Some (Inl e, cell', s')
      | Some (Inr v, cell', s') \<Rightarrow>
          (let cell1 = cell'\<lparr>cachedResult := v\<rparr>;
               cell2 = cell1\<lparr>isCached := True\<rparr>
           in Some (Inr (cachedResult cell2), cell2, s'))"
    have unfold: "memoize_wrapper (Suc n) func c args s =
        ?store (run_with (?inner n) (func [] (world s)) c ?start)" for n
      using False by (subst memoize_wrapper.simps(2)) (simp del: memoize_wrapper.simps)
    from Suc.prems obtain y where
      run: "run_with (?inner d) (func [] (world s)) c ?start = Some y"
      unfolding unfold by (auto split: option.splits)
    have "run_with (?inner (Suc d)) (func [] (world s)) c ?start = Some y"
      by (rule run_with_deeper [OF _ run]) (rule Suc.IH)
    with run Suc.prems show ?thesis
      unfolding unfold by (simp del: memoize_wrapper.simps)
  qed
qed



lemma call_cached:
  "code f = (\<lambda>depth. memoize_wrapper depth func) \<Longrightarrow> isCached (env f) \<Longrightarrow>
     call (Suc d) f args t = Some (Inr (cachedResult (env f)), f, t)"
  by (simp add: call_def)

lemma call_seq_cached:
  "code f = (\<lambda>depth. memoize_wrapper depth func) \<Longrightarrow> isCached (env f) \<Longrightarrow>
     call_seq (Suc d) f argss t = Some (replicate (length argss) (Inr (cachedResult (env f))), f, t)"
  by (induction argss) (simp_all add: call_cached del: memoize_wrapper.simps)

lemma call_memoize_first:
  "func [] (world s) = Finished (Inr v) w' \<Longrightarrow>
     call (Suc d) (memoize func) args s =
       Some (Inr v, (memoize func)\<lparr>env := \<lparr>cachedResult = v, isCached = True\<rparr>\<rparr>,
             \<lparr>world = w', events = events s @ [CallFunc []]\<rparr>)"
  using memoize_wrapper_first [of "env (memoize func)" func s v w' d args]
  by (simp add: call_def memoize_def del: memoize_wrapper.simps)


text \<open>
  Claim C1, as the code has it. When the first call of \<open>func\<close> returns \<open>v\<close> without having
  called the wrapper, the first invocation of the wrapper calls \<open>func\<close> once (with no
  argument), and returns \<open>v\<close>; every later invocation, with any arguments and in any
  state, returns \<open>v\<close> and changes nothing, so it does not call \<open>func\<close>. Over any sequence
  of one or more invocations every result is \<open>v\<close> and \<open>func\<close> has been called exactly once.
\<close>

theorem memoize_calls_func_once:
  assumes first: "func [] (world s) = Finished (Inr v) w'"
  shows "\<exists>wrapper' s'.
           call (Suc depth) (memoize func) args s = Some (Inr v, wrapper', s') \<and>
           world s' = w' \<and> events s' = events s @ [CallFunc []] \<and>
           (\<forall>args' t d. call (Suc d) wrapper' args' t = Some (Inr v, wrapper', t)) \<and>
           call_seq (Suc depth) (memoize func) (args # argss) s =
             Some (replicate (Suc (length argss)) (Inr v), wrapper', s')"
proof -
  define wrapper' where "wrapper' = (memoize func)\<lparr>env := \<lparr>cachedResult = v, isCached = True\<rparr>\<rparr>"
  define s' where "s' = \<lparr>world = w', events = events s @ [CallFunc []]\<rparr>"
  have code: "code wrapper' = (\<lambda>depth. memoize_wrapper depth func)"
    and cached: "isCached (env wrapper')"
    and val: "cachedResult (env wrapper') = v"
    by (simp_all add: wrapper'_def memoize_def)
  have one: "call (Suc depth) (memoize func) args s = Some (Inr v, wrapper', s')"
    using call_memoize_first [of func s v w' depth args] first
    by (simp add: wrapper'_def s'_def)
  have later: "call (Suc d) wrapper' args' t = Some (Inr v, wrapper', t)" for args' t d
    using call_cached [OF code cached] val by simp
  have "call_seq (Suc depth) wrapper' argss s' =
      Some (replicate (length argss) (Inr v), wrapper', s')"
    using call_seq_cached [OF code cached] val by simp
  with one have "call_seq (Suc depth) (memoize func) (args # argss) s =
      Some (replicate (Suc (length argss)) (Inr v), wrapper', s')"
    by (simp del: memoize_wrapper.simps)
  with one later show ?thesis
    by (intro exI [of _ wrapper'] exI [of _ s']) (simp add: s'_def)
qed

theorem memoize_calls_func_once_witness:
  "plain counting [] (world \<lparr>world = 0, events = []\<rparr>) = Finished (Inr (JNum 0)) 1 \<and>
   map_option fst (call_seq (Suc 0) (memoize (plain counting)) [[], [JNull], []]
       \<lparr>world = 0, events = []\<rparr>) =
     Some [Inr (JNum 0), Inr (JNum 0), Inr (JNum 0)] \<and>
   map_option (snd \<circ> snd) (call_seq (Suc 0) (memoize (plain counting)) [[], [JNull], []]
       \<lparr>world = 0, events = []\<rparr>) =
     Some \<lparr>world = 1, events = [CallFunc []]\<rparr>"
proof -
  have first: "plain counting [] (world \<lparr>world = 0, events = []\<rparr>) = Finished (Inr (JNum 0)) 1"
    by (simp add: plain_def counting_def)
  from memoize_calls_func_once [where func = "plain counting"
      and s = "\<lparr>world = 0, events = []\<rparr>" and v = "JNum 0" and w' = 1
      and depth = 0 and args = "[]" and argss = "[[JNull], []]"] first
  show ?thesis by auto
qed

text \<open>
  The claim as it was stated speaks of every function. It fails for a function whose
  first call throws: \<open>flaky\<close> is called twice over three invocations, and the first
  invocation does not give the value that the later ones give. It also fails for a
  function that calls its wrapper: in one invocation of the wrapper
  \<open>reenters_then_returns\<close> is called twice.
\<close>

theorem memoize_calls_func_once_counterexample:
  "map_option fst (call_seq (Suc 0) (memoize (plain flaky)) [[], [], []]
       \<lparr>world = 0, events = []\<rparr>) =
     Some [Inl (JStr ''test''), Inr (JNum 2), Inr (JNum 2)] \<and>
   map_option (snd \<circ> snd) (call_seq (Suc 0) (memoize (plain flaky)) [[], [], []]
       \<lparr>world = 0, events = []\<rparr>) =
     Some \<lparr>world = 2, events = [CallFunc [], CallFunc []]\<rparr> \<and>
   map_option fst (call (Suc (Suc 0)) (memoize reenters_then_returns) []
       \<lparr>world = 0, events = []\<rparr>) =
     Some (Inr (JStr ''outer'')) \<and>
   map_option (snd \<circ> snd) (call (Suc (Suc 0)) (memoize reenters_then_returns) []
       \<lparr>world = 0, events = []\<rparr>) =
     Some \<lparr>world = 2, events = [CallFunc [], CallFunc []]\<rparr>"
  by (simp add: call_def memoize_def plain_def flaky_def reenters_then_returns_def)






section \<open>Properties of retry\<close>

lemma retry_loop_exhausted:
  "\<not> js_less N i attempts \<Longrightarrow> retry_loop N func attempts i lastError s = Some (Inl lastError, s)"
  by (subst retry_loop.simps) simp

lemma retry_loop_returns:
  "js_less N i attempts \<Longrightarrow> fcall func [] (world s) = (Inr v, w') \<Longrightarrow>
     retry_loop N func attempts i lastError s =
       Some (Inr v, \<lparr>world = w', events = events s @ [CallFunc []]\<rparr>)"
  by (subst retry_loop.simps) (simp add: call_fn_returns)

lemma retry_loop_throws:
  "js_less N i attempts \<Longrightarrow> fcall func [] (world s) = (Inl e, w') \<Longrightarrow>
     retry_loop N func attempts i lastError s =
       retry_loop N func attempts (increment N i) e
         \<lparr>world = w', events = events s @ [CallFunc []]\<rparr>"
  by (subst retry_loop.simps) (simp add: call_fn_returns increment_def)

lemma increment_shift: "(increment N ^^ j) (increment N i) = (increment N ^^ Suc j) i"
  by (simp add: funpow_swap1)

lemma retry_loop_first_success:
  "\<forall>j\<le>k. js_less N ((increment N ^^ j) i) attempts \<Longrightarrow>
   \<forall>j<k. isl (outcomes func (Suc k) (world s) ! j) \<Longrightarrow>
   outcomes func (Suc k) (world s) ! k = Inr v \<Longrightarrow>
     retry_loop N func attempts i lastError s =
       Some (Inr v, \<lparr>world = world_after func (Suc k) (world s),
                     events = events s @ replicate (Suc k) (CallFunc [])\<rparr>)"
proof (induction k arbitrary: i lastError s)
  case 0
  obtain r w' where step: "fcall func [] (world s) = (r, w')"
    by (cases "fcall func [] (world s)")
  from "0.prems"(1) have guard: "js_less N i attempts"
    by (auto dest: spec [of _ 0])
  from "0.prems"(3) step have "r = Inr v" by simp
  with step retry_loop_returns [OF guard, of func s v w' lastError] show ?case
    by simp
next
  case (Suc k)
  obtain r w' where step: "fcall func [] (world s) = (r, w')"
    by (cases "fcall func [] (world s)")
  from Suc.prems(1) have guard: "js_less N i attempts"
    by (auto dest: spec [of _ 0])
  from Suc.prems(2) step have "isl r"
    by (auto dest: spec [of _ 0])
  then obtain e where r: "r = Inl e" by (cases r) auto
  let ?s' = "\<lparr>world = w', events = events s @ [CallFunc []]\<rparr>"
  have guards: "\<forall>j\<le>k. js_less N ((increment N ^^ j) (increment N i)) attempts"
  proof (intro allI impI)
    fix j assume "j \<le> k"
    then have "Suc j \<le> Suc k" by simp
    with Suc.prems(1) have "js_less N ((increment N ^^ Suc j) i) attempts" by blast
    then show "js_less N ((increment N ^^ j) (increment N i)) attempts"
      by (simp only: increment_shift)
  qed
  have fails: "\<forall>j<k. isl (outcomes func (Suc k) (world ?s') ! j)"
  proof (intro allI impI)
    fix j assume "j < k"
    with Suc.prems(2) have "isl (outcomes func (Suc (Suc k)) (world s) ! Suc j)" by simp
    with step show "isl (outcomes func (Suc k) (world ?s') ! j)" by simp
  qed
  have ok: "outcomes func (Suc k) (world ?s') ! k = Inr v"
    using Suc.prems(3) step by simp
  from Suc.IH [OF guards fails ok, of e]
  have "retry_loop N func attempts (increment N i) e ?s' =
          Some (Inr v, \<lparr>world = world_after func (Suc k) w',
                        events = events s @ replicate (Suc (Suc k)) (CallFunc [])\<rparr>)"
    by (simp add: replicate_append_same)
  with step r retry_loop_throws [OF guard, of func s e w' lastError] show ?case
    by simp
qed

lemma retry_loop_all_fail:
  "\<forall>j<n. js_less N ((increment N ^^ j) i) attempts \<Longrightarrow>
   \<not> js_less N ((increment N ^^ n) i) attempts \<Longrightarrow>
   \<forall>j<n. isl (outcomes func n (world s) ! j) \<Longrightarrow>
     retry_loop N func attempts i lastError s =
       Some (last (Inl lastError # outcomes func n (world s)),
             \<lparr>world = world_after func n (world s),
              events = events s @ replicate n (CallFunc [])\<rparr>)"
proof (induction n arbitrary: i lastError s)
  case 0
  then show ?case by (simp add: retry_loop_exhausted)
next
  case (Suc n)
  obtain r w' where step: "fcall func [] (world s) = (r, w')"
    by (cases "fcall func [] (world s)")
  from Suc.prems(1) have guard: "js_less N i attempts"
    by (auto dest: spec [of _ 0])
  from Suc.prems(3) step have "isl r"
    by (auto dest: spec [of _ 0])
  then obtain e where r: "r = Inl e" by (cases r) auto
  let ?s' = "\<lparr>world = w', events = events s @ [CallFunc []]\<rparr>"
  have guards: "\<forall>j<n. js_less N ((increment N ^^ j) (increment N i)) attempts"
  proof (intro allI impI)
    fix j assume "j < n"
    then have "Suc j < Suc n" by simp
    with Suc.prems(1) have "js_less N ((increment N ^^ Suc j) i) attempts" by blast
    then show "js_less N ((increment N ^^ j) (increment N i)) attempts"
      by (simp only: increment_shift)
  qed
  have stop: "\<not> js_less N ((increment N ^^ n) (increment N i)) attempts"
    unfolding increment_shift by (rule Suc.prems(2))
  have fails: "\<forall>j<n. isl (outcomes func n (world ?s') ! j)"
  proof (intro allI impI)
    fix j assume "j < n"
    with Suc.prems(3) have "isl (outcomes func (Suc n) (world s) ! Suc j)" by simp
    with step show "isl (outcomes func n (world ?s') ! j)" by simp
  qed
  from Suc.IH [OF guards stop fails, of e]
  have "retry_loop N func attempts (increment N i) e ?s' =
          Some (last (Inl e # outcomes func n w'),
                \<lparr>world = world_after func n w',
                 events = events s @ replicate (Suc n) (CallFunc [])\<rparr>)"
    by (simp add: replicate_append_same)
  with step r retry_loop_throws [OF guard, of func s e w' lastError] show ?case
    by simp
qed

text \<open>A loop whose counter never reaches \<open>attempts\<close>, around a function that always throws.\<close>

lemma retry_loop_never_returns:
  fixes N :: "'n numbers" and func :: "'w jsfun"
  assumes guards: "\<forall>j. js_less N ((increment N ^^ j) i) attempts"
    and throws: "\<forall>w. isl (fst (fcall func [] w))"
  shows "retry_loop N func attempts i lastError s = None"
proof (rule ccontr)
  assume "retry_loop N func attempts i lastError s \<noteq> None"
  then obtain y where run: "retry_loop N func attempts i lastError s = Some y" by auto
  let ?stuck = "\<lambda>(N :: 'n numbers) (func :: 'w jsfun) attempts i.
      (\<forall>j. js_less N ((increment N ^^ j) i) attempts) \<and> (\<forall>w. isl (fst (fcall func [] w)))"
  let ?P = "\<lambda>N func attempts i (lastError :: jsval) (s :: 'w jsstate)
      (y :: outcome \<times> 'w jsstate). \<not> ?stuck N func attempts i"
  have "?P N func attempts i lastError s y"
  proof (rule retry_loop.raw_induct [where P = ?P, OF _ run])
    fix loop :: "'n numbers \<Rightarrow> 'w jsfun \<Rightarrow> 'n \<Rightarrow> 'n \<Rightarrow> jsval \<Rightarrow> 'w jsstate
        \<Rightarrow> (outcome \<times> 'w jsstate) option"
    fix N :: "'n numbers" and func :: "'w jsfun" and attempts i lastError
      and s :: "'w jsstate" and y
    assume IH: "\<And>N func attempts i lastError s y.
        loop N func attempts i lastError s = Some y \<Longrightarrow> \<not> ?stuck N func attempts i"
    assume body: "(if js_less N i attempts then
        (case call_fn CallFunc func [] s of
           (Inr v, s') \<Rightarrow> Some (Inr v, s')
         | (Inl error, s') \<Rightarrow> loop N func attempts (js_add N i (js_one N)) error s')
      else Some (Inl lastError, s)) = Some y"
    show "\<not> ?stuck N func attempts i"
    proof
      assume stuck: "?stuck N func attempts i"
      then have guard: "js_less N i attempts"
        by (auto dest: spec [of _ 0])
      obtain r w' where step: "fcall func [] (world s) = (r, w')"
        by (cases "fcall func [] (world s)")
      with stuck have "isl r" by (metis fst_conv)
      then obtain e where r: "r = Inl e" by (cases r) auto
      from body guard step r
      have "loop N func attempts (increment N i) e
              \<lparr>world = w', events = events s @ [CallFunc []]\<rparr> = Some y"
        by (simp add: call_fn_returns increment_def)
      from IH [OF this] have "\<not> ?stuck N func attempts (increment N i)" .
      moreover from stuck have "?stuck N func attempts (increment N i)"
        unfolding increment_shift by blast
      ultimately show False by blast
    qed
  qed
  with guards throws show False by blast
qed

text \<open>The counter of the doubles: it counts up to \<open>2^53\<close> and stays there.\<close>

lemma counter_binary64_value: "counter binary64 j = Finite (real (min j (2 ^ 53)))"
proof (induction j)
  case 0
  show ?case by (simp add: counter_def binary64_simps)
next
  case (Suc j)
  have step: "counter binary64 (Suc j) = increment binary64 (counter binary64 j)"
    by (simp add: counter_def)
  show ?case
  proof (cases "j < 2 ^ 53")
    case True
    then have "int j < int (2 ^ 53)"
      by (simp only: of_nat_less_iff)
    moreover have "int (2 ^ 53) = 2 ^ 53" by simp
    ultimately have "\<bar>int j + 1\<bar> \<le> 2 ^ 53"
      by linarith
    from increment_binary64_int [OF this] True Suc.IH step show ?thesis
      by (simp add: min_def add.commute)
  next
    case False
    then have "counter binary64 j = Finite (2 ^ 53)"
      using Suc.IH by (simp add: min_def)
    with step to_double_tie have "counter binary64 (Suc j) = Finite (2 ^ 53)"
      by (simp add: increment_def binary64_simps)
    with False show ?thesis by (simp add: min_def)
  qed
qed

lemma counter_binary64_guard:
  "m \<le> 2 ^ 53 \<Longrightarrow> js_less binary64 (counter binary64 j) (Finite (real m)) = (j < m)"
  by (auto simp: counter_binary64_value binary64_simps min_def)

lemma counter_binary64_below_infinity: "dless (counter binary64 j) PosInf"
  by (simp add: counter_binary64_value)

lemma counter_binary64_values:
  "counter binary64 0 = Finite 0"
  "counter binary64 (Suc 0) = Finite 1"
  "counter binary64 (Suc (Suc 0)) = Finite 2"
  "counter binary64 (Suc (Suc (Suc 0))) = Finite 3"
  by (simp_all add: counter_def increment_def binary64_simps)

text \<open>
  Claim C2, as the code has it. The wrapper calls \<open>func\<close> in order, once for each value
  \<open>0, 1, 2, ...\<close> of the loop counter that is below \<open>attempts\<close>, the counter being
  incremented and compared by the language. If call number \<open>k + 1\<close> is the first that
  does not throw and the counter is below \<open>attempts\<close> up to it, the wrapper makes exactly
  these \<open>k + 1\<close> calls and returns the result of the last of them. If the counter is below
  \<open>attempts\<close> for \<open>n \<ge> 1\<close> calls and then no longer, and each of the \<open>n\<close> calls throws, the
  wrapper makes exactly \<open>n\<close> calls and throws what the last of them threw. If the counter
  stays below \<open>attempts\<close> for ever and \<open>func\<close> throws whenever it is called, the wrapper
  does not return. In the doubles, when \<open>attempts\<close> is a whole number \<open>m\<close> up to \<open>2^53\<close>, the
  counter values below it are exactly the first \<open>m\<close>: the calls are at most \<open>attempts\<close>.
\<close>

theorem retry_first_success_or_last_error:
  "((\<forall>j\<le>k. js_less N (counter N j) attempts) \<and>
    (\<forall>j<k. isl (outcomes func (Suc k) (world s) ! j)) \<and>
    outcomes func (Suc k) (world s) ! k = Inr v \<longrightarrow>
      retry N func attempts args s =
        Some (Inr v, \<lparr>world = world_after func (Suc k) (world s),
                      events = events s @ replicate (Suc k) (CallFunc [])\<rparr>)) \<and>
   (0 < n \<and> (\<forall>j<n. js_less N (counter N j) attempts) \<and>
    \<not> js_less N (counter N n) attempts \<and>
    (\<forall>j<n. isl (outcomes func n (world s) ! j)) \<longrightarrow>
      retry N func attempts args s =
        Some (last (outcomes func n (world s)),
              \<lparr>world = world_after func n (world s),
               events = events s @ replicate n (CallFunc [])\<rparr>)) \<and>
   ((\<forall>j. js_less N (counter N j) attempts) \<and> (\<forall>w. isl (fst (fcall func [] w))) \<longrightarrow>
      retry N func attempts args s = None) \<and>
   (m \<le> 2 ^ 53 \<longrightarrow> js_less binary64 (counter binary64 i) (Finite (real m)) = (i < m))"
proof (intro conjI impI)
  assume a: "(\<forall>j\<le>k. js_less N (counter N j) attempts) \<and>
    (\<forall>j<k. isl (outcomes func (Suc k) (world s) ! j)) \<and>
    outcomes func (Suc k) (world s) ! k = Inr v"
  then show "retry N func attempts args s =
        Some (Inr v, \<lparr>world = world_after func (Suc k) (world s),
                      events = events s @ replicate (Suc k) (CallFunc [])\<rparr>)"
    using retry_loop_first_success [of k N "js_zero N" attempts func s v JUndefined]
    by (simp add: retry_def counter_def)
next
  assume a: "0 < n \<and> (\<forall>j<n. js_less N (counter N j) attempts) \<and>
    \<not> js_less N (counter N n) attempts \<and>
    (\<forall>j<n. isl (outcomes func n (world s) ! j))"
  then have "outcomes func n (world s) \<noteq> []"
    by (cases n) (auto split: prod.splits)
  with a show "retry N func attempts args s =
        Some (last (outcomes func n (world s)),
              \<lparr>world = world_after func n (world s),
               events = events s @ replicate n (CallFunc [])\<rparr>)"
    using retry_loop_all_fail [of n N "js_zero N" attempts func s JUndefined]
    by (simp add: retry_def counter_def)
next
  assume "(\<forall>j. js_less N (counter N j) attempts) \<and> (\<forall>w. isl (fst (fcall func [] w)))"
  then show "retry N func attempts args s = None"
    using retry_loop_never_returns [of N "js_zero N" attempts func JUndefined s]
    by (simp add: retry_def counter_def)
next
  assume "m \<le> 2 ^ 53"
  then show "js_less binary64 (counter binary64 i) (Finite (real m)) = (i < m)"
    by (rule counter_binary64_guard)
qed

theorem retry_first_success_or_last_error_witness:
  "outcomes flaky (Suc 1) (world \<lparr>world = 0, events = []\<rparr>) = [Inl (JStr ''test''), Inr (JNum 2)] \<and>
   retry binary64 flaky (Finite 2) [] \<lparr>world = 0, events = []\<rparr> =
     Some (Inr (JNum 2), \<lparr>world = 2, events = [CallFunc [], CallFunc []]\<rparr>) \<and>
   outcomes failing 2 (world \<lparr>world = 0, events = []\<rparr>) = [Inl (JNum 1), Inl (JNum 2)] \<and>
   retry binary64 failing (Finite 2) [] \<lparr>world = 0, events = []\<rparr> =
     Some (Inl (JNum 2), \<lparr>world = 2, events = [CallFunc [], CallFunc []]\<rparr>) \<and>
   retry binary64 failing PosInf [] \<lparr>world = 0, events = []\<rparr> = None \<and>
   (2::nat) \<le> 2 ^ 53 \<and>
   js_less binary64 (counter binary64 1) (Finite (real 2)) = ((1::nat) < 2)"
proof -
  let ?s = "\<lparr>world = 0, events = []\<rparr> :: nat jsstate"
  have o1: "outcomes flaky (Suc 1) (world ?s) = [Inl (JStr ''test''), Inr (JNum 2)]"
    by (simp add: flaky_def)
  have o2: "outcomes failing 2 (world ?s) = [Inl (JNum 1), Inl (JNum 2)]"
    by (simp add: numeral_2_eq_2 failing_def)
  have w1: "world_after flaky (Suc 1) (world ?s) = 2"
    by (simp add: flaky_def)
  have w2: "world_after failing 2 (world ?s) = 2"
    by (simp add: numeral_2_eq_2 failing_def)
  have g1: "\<forall>j\<le>1. js_less binary64 (counter binary64 j) (Finite 2)"
    by (auto simp: le_Suc_eq counter_binary64_values binary64_simps)
  have g2: "\<forall>j<2. js_less binary64 (counter binary64 j) (Finite 2)"
    by (auto simp: numeral_2_eq_2 less_Suc_eq counter_binary64_values binary64_simps)
  have g3: "\<not> js_less binary64 (counter binary64 2) (Finite 2)"
    by (simp add: numeral_2_eq_2 counter_binary64_values binary64_simps)
  have g4: "\<forall>j. js_less binary64 (counter binary64 j) PosInf"
    by (simp add: binary64_simps counter_binary64_below_infinity)
  have all1: "\<forall>j<1. isl (outcomes flaky (Suc 1) (world ?s) ! j)"
    unfolding o1 by simp
  have all2: "\<forall>j<2. isl (outcomes failing 2 (world ?s) ! j)"
    unfolding o2 by (simp add: numeral_2_eq_2 less_Suc_eq)
  have all3: "\<forall>w. isl (fst (fcall failing [] w))"
    by (simp add: failing_def)
  have r1: "retry binary64 flaky (Finite 2) [] ?s =
     Some (Inr (JNum 2), \<lparr>world = 2, events = [CallFunc [], CallFunc []]\<rparr>)"
    using retry_first_success_or_last_error
      [where k = 1 and N = binary64 and attempts = "Finite 2" and func = flaky
         and v = "JNum 2" and s = ?s and args = "[]", THEN conjunct1]
      g1 all1 o1 w1
    by (simp add: numeral_2_eq_2)
  have r2: "retry binary64 failing (Finite 2) [] ?s =
     Some (Inl (JNum 2), \<lparr>world = 2, events = [CallFunc [], CallFunc []]\<rparr>)"
    using retry_first_success_or_last_error
      [where n = 2 and N = binary64 and attempts = "Finite 2" and func = failing
         and s = ?s and args = "[]", THEN conjunct2, THEN conjunct1]
      g2 g3 all2 o2 w2
    by (simp add: numeral_2_eq_2)
  have r3: "retry binary64 failing PosInf [] ?s = None"
    using retry_first_success_or_last_error
      [where N = binary64 and attempts = PosInf and func = failing and s = ?s and args = "[]",
        THEN conjunct2, THEN conjunct2, THEN conjunct1]
      g4 all3
    by simp
  have small: "(2::nat) \<le> 2 ^ 53" by simp
  have r4: "js_less binary64 (counter binary64 1) (Finite (real 2)) = ((1::nat) < 2)"
    using retry_first_success_or_last_error
      [where m = 2 and i = 1, THEN conjunct2, THEN conjunct2, THEN conjunct2] small
    by blast
  from o1 o2 r1 r2 r3 small r4 show ?thesis by blast
qed

text \<open>
  The claim as it was stated bounds the number of calls by \<open>attempts\<close>. With
  \<open>attempts = 2.5\<close> the counter values \<open>0\<close>, \<open>1\<close> and \<open>2\<close> are below it, and a function that
  always throws is called three times.
\<close>

theorem retry_attempts_counterexample:
  "retry binary64 failing (Finite (5 / 2)) [] \<lparr>world = 0, events = []\<rparr> =
     Some (Inl (JNum 3), \<lparr>world = 3, events = [CallFunc [], CallFunc [], CallFunc []]\<rparr>)"
proof -
  let ?s = "\<lparr>world = 0, events = []\<rparr> :: nat jsstate"
  have o: "outcomes failing 3 (world ?s) = [Inl (JNum 1), Inl (JNum 2), Inl (JNum 3)]"
    and w: "world_after failing 3 (world ?s) = 3"
    by (simp_all add: numeral_3_eq_3 failing_def)
  have c: "(increment binary64 ^^ j) (js_zero binary64) = counter binary64 j" for j
    by (simp add: counter_def)
  have g: "\<forall>j<3. js_less binary64 ((increment binary64 ^^ j) (js_zero binary64)) (Finite (5 / 2))"
    unfolding c
    by (auto simp: numeral_3_eq_3 less_Suc_eq counter_binary64_values binary64_simps)
  have stop: "\<not> js_less binary64 ((increment binary64 ^^ 3) (js_zero binary64)) (Finite (5 / 2))"
    unfolding c
    by (simp add: numeral_3_eq_3 counter_binary64_values binary64_simps)
  have fails: "\<forall>j<3. isl (outcomes failing 3 (world ?s) ! j)"
    unfolding o by (simp add: numeral_3_eq_3 less_Suc_eq)
  from retry_loop_all_fail [OF g stop fails, of JUndefined] o w show ?thesis
    by (simp add: retry_def numeral_3_eq_3)
qed

text \<open>
  Claim C6. With zero or a negative number of attempts the test \<^verbatim>\<open>0 < attempts\<close> fails
  and the loop body never runs: the wrapper calls nothing, changes nothing, and throws
  the value of the uninitialised variable \<^verbatim>\<open>lastError\<close>, which is \<^verbatim>\<open>undefined\<close>.
\<close>

theorem retry_without_attempts:
  "(\<not> js_less N (js_zero N) attempts \<longrightarrow>
      retry N func attempts args s = Some (Inl JUndefined, s)) \<and>
   (x \<le> 0 \<longrightarrow> retry binary64 func' (Finite x) args' s' = Some (Inl JUndefined, s')) \<and>
   retry binary64 func' NegInf args' s' = Some (Inl JUndefined, s')"
  by (simp add: retry_def retry_loop_exhausted binary64_simps)

theorem retry_without_attempts_witness:
  "\<not> js_less binary64 (js_zero binary64) (Finite 0) \<and> (0::real) \<le> 0 \<and> (- 3::real) \<le> 0 \<and>
   retry binary64 flaky (Finite 0) [] \<lparr>world = 0, events = []\<rparr> =
     Some (Inl JUndefined, \<lparr>world = 0, events = []\<rparr>) \<and>
   retry binary64 flaky (Finite (- 3)) [] \<lparr>world = 0, events = []\<rparr> =
     Some (Inl JUndefined, \<lparr>world = 0, events = []\<rparr>)"
  using retry_without_attempts [where N = binary64 and attempts = "Finite 0" and func = flaky
      and args = "[]" and s = "\<lparr>world = 0, events = []\<rparr>" and x = "- 3" and func' = flaky
      and args' = "[]" and s' = "\<lparr>world = 0, events = []\<rparr>"]
  by (simp add: binary64_simps)

section \<open>Properties of logger\<close>

text \<open>
  The recorded serialisation of the arguments, in terms of what the serialiser does on
  the world alone: every argument is serialised, in order, when none of them throws, and
  a throw ends the traversal.
\<close>

lemma array_map_recorded:
  "array_map stringify args (world s) = (Inr strs, wa) \<Longrightarrow>
     array_map (\<lambda>arg. invoke (CallStringify arg) (stringify arg)) args s =
       (Inr strs, \<lparr>world = wa, events = events s @ map CallStringify args\<rparr>)"
proof (induction args arbitrary: s strs)
  case Nil
  then show ?case by simp
next
  case (Cons a args)
  from Cons.prems obtain y w' ys where
    head: "stringify a (world s) = (Inr y, w')" and
    tail: "array_map stringify args w' = (Inr ys, wa)" and
    strs: "strs = y # ys"
    by (auto split: prod.splits sum.splits)
  let ?s' = "\<lparr>world = w', events = events s @ [CallStringify a]\<rparr>"
  from tail have "array_map stringify args (world ?s') = (Inr ys, wa)" by simp
  from Cons.IH [OF this] head strs show ?case
    by (simp add: invoke_returns)
qed

lemma array_map_recorded_throw:
  "array_map stringify args (world s) = (Inl e, wa) \<Longrightarrow>
     \<exists>k<length args.
       array_map (\<lambda>arg. invoke (CallStringify arg) (stringify arg)) args s =
         (Inl e, \<lparr>world = wa, events = events s @ map CallStringify (take (Suc k) args)\<rparr>)"
proof (induction args arbitrary: s)
  case Nil
  then show ?case by simp
next
  case (Cons a args)
  obtain r w' where head: "stringify a (world s) = (r, w')"
    by (cases "stringify a (world s)")
  show ?case
  proof (cases r)
    case (Inl e')
    with Cons.prems head have "e' = e" "w' = wa" by simp_all
    with head Inl show ?thesis
      by (intro exI [of _ 0]) (simp add: invoke_returns)
  next
    case (Inr y)
    let ?s' = "\<lparr>world = w', events = events s @ [CallStringify a]\<rparr>"
    from Cons.prems head Inr have "array_map stringify args (world ?s') = (Inl e, wa)"
      by (auto split: prod.splits sum.splits)
    from Cons.IH [OF this] obtain k where "k < length args" and
      "array_map (\<lambda>arg. invoke (CallStringify arg) (stringify arg)) args ?s' =
         (Inl e, \<lparr>world = wa,
                  events = events ?s' @ map CallStringify (take (Suc k) args)\<rparr>)"
      by blast
    with head Inr show ?thesis
      by (intro exI [of _ "Suc k"]) (simp add: invoke_returns)
  qed
qed

text \<open>When the serialisation throws, nothing is logged and \<open>func\<close> is not called.\<close>

lemma logger_serialisation_throws:
  assumes "array_map stringify args (world s) = (Inl e, wa)"
  shows "\<exists>k<length args.
           logger stringify func logFunc args s =
             (Inl e, \<lparr>world = wa, events = events s @ map CallStringify (take (Suc k) args)\<rparr>)"
proof -
  from array_map_recorded_throw [OF assms] obtain k where "k < length args" and
    "array_map (\<lambda>arg. invoke (CallStringify arg) (stringify arg)) args s =
       (Inl e, \<lparr>world = wa, events = events s @ map CallStringify (take (Suc k) args)\<rparr>)"
    by blast
  then show ?thesis
    by (intro exI [of _ k]) (simp add: logger_def)
qed

text \<open>
  Claim C3, as the code has it. Take an invocation on \<open>args\<close> in which the arguments
  serialise to \<open>strs\<close> and the log function returns on the line \<open>name(argsString) starts\<close>,
  where \<open>argsString\<close> is \<open>strs\<close> joined by commas. If \<open>func\<close> then returns \<open>v\<close>, the
  wrapper has called the log function with the \<open>starts\<close> line, then \<open>func\<close> once with
  \<open>args\<close>, then the log function with the \<open>ends\<close> line, and nothing else; it returns \<open>v\<close>
  when that second log call returns, and throws what the second log call throws
  otherwise. If \<open>func\<close> throws \<open>e\<close>, the wrapper throws \<open>e\<close> and the \<open>ends\<close> line is not
  logged.
\<close>

theorem logger_logs_around_call:
  assumes ser: "array_map stringify args (world s) = (Inr strs, wa)"
    and starts: "fcall logFunc [JStr (log_line (fname func) (join strs '','') ''starts'')] wa
                   = (Inr u, wb)"
  shows "(fcall func args wb = (Inr v, wc) \<and>
          fcall logFunc [JStr (log_line (fname func) (join strs '','') ''ends'')] wc = (rd, wd)
          \<longrightarrow>
            logger stringify func logFunc args s =
              ((case rd of Inl e' \<Rightarrow> Inl e' | Inr u' \<Rightarrow> Inr v),
               \<lparr>world = wd,
                events = events s @ map CallStringify args @
                  [CallLog [JStr (log_line (fname func) (join strs '','') ''starts'')],
                   CallFunc args,
                   CallLog [JStr (log_line (fname func) (join strs '','') ''ends'')]]\<rparr>)) \<and>
         (fcall func args wb = (Inl e, wc) \<longrightarrow>
            logger stringify func logFunc args s =
              (Inl e,
               \<lparr>world = wc,
                events = events s @ map CallStringify args @
                  [CallLog [JStr (log_line (fname func) (join strs '','') ''starts'')],
                   CallFunc args]\<rparr>))"
  using array_map_recorded [OF ser] starts
  by (auto simp: logger_def Let_def call_fn_returns split: sum.splits)

theorem logger_logs_around_call_witness:
  "array_map toy_stringify [JRef 0, JNull] (world \<lparr>world = (False, []), events = []\<rparr>) =
     (Inr [Some ''[false]'', Some ''null''], (False, [])) \<and>
   fcall collector [JStr ''toggle([false],null) starts''] (False, []) =
     (Inr JUndefined, (False, [[JStr ''toggle([false],null) starts'']])) \<and>
   fcall toggle [JRef 0, JNull] (False, [[JStr ''toggle([false],null) starts'']]) =
     (Inr (JNum 7), (True, [[JStr ''toggle([false],null) starts'']])) \<and>
   logger toy_stringify toggle collector [JRef 0, JNull] \<lparr>world = (False, []), events = []\<rparr> =
     (Inr (JNum 7),
      \<lparr>world = (True, [[JStr ''toggle([false],null) starts''],
                       [JStr ''toggle([false],null) ends'']]),
       events = [CallStringify (JRef 0), CallStringify JNull,
                 CallLog [JStr ''toggle([false],null) starts''],
                 CallFunc [JRef 0, JNull],
                 CallLog [JStr ''toggle([false],null) ends'']]\<rparr>) \<and>
   fcall thrower [JRef 0, JNull] (False, [[JStr ''thrower([false],null) starts'']]) =
     (Inl (JStr ''boom''), (False, [[JStr ''thrower([false],null) starts'']])) \<and>
   logger toy_stringify thrower collector [JRef 0, JNull] \<lparr>world = (False, []), events = []\<rparr> =
     (Inl (JStr ''boom''),
      \<lparr>world = (False, [[JStr ''thrower([false],null) starts'']]),
       events = [CallStringify (JRef 0), CallStringify JNull,
                 CallLog [JStr ''thrower([false],null) starts''],
                 CallFunc [JRef 0, JNull]]\<rparr>)"
proof -
  let ?s = "\<lparr>world = (False, []), events = []\<rparr> :: logworld jsstate"
  have ser: "array_map toy_stringify [JRef 0, JNull] (world ?s) =
     (Inr [Some ''[false]'', Some ''null''], (False, []))"
    by (simp add: toy_stringify_def)
  have line1: "log_line (fname toggle) (join [Some ''[false]'', Some ''null''] '','') ''starts''
                 = ''toggle([false],null) starts''"
    and line2: "log_line (fname toggle) (join [Some ''[false]'', Some ''null''] '','') ''ends''
                 = ''toggle([false],null) ends''"
    and line3: "log_line (fname thrower) (join [Some ''[false]'', Some ''null''] '','') ''starts''
                 = ''thrower([false],null) starts''"
    by (simp_all add: log_line_def toggle_def thrower_def)
  have starts: "fcall collector
      [JStr (log_line (fname toggle) (join [Some ''[false]'', Some ''null''] '','') ''starts'')]
      (False, []) = (Inr JUndefined, (False, [[JStr ''toggle([false],null) starts'']]))"
    unfolding line1 by (simp add: collector_def)
  have starts': "fcall collector
      [JStr (log_line (fname thrower) (join [Some ''[false]'', Some ''null''] '','') ''starts'')]
      (False, []) = (Inr JUndefined, (False, [[JStr ''thrower([false],null) starts'']]))"
    unfolding line3 by (simp add: collector_def)
  have run: "fcall toggle [JRef 0, JNull] (False, [[JStr ''toggle([false],null) starts'']]) =
     (Inr (JNum 7), (True, [[JStr ''toggle([false],null) starts'']]))"
    by (simp add: toggle_def)
  have ends: "fcall collector
      [JStr (log_line (fname toggle) (join [Some ''[false]'', Some ''null''] '','') ''ends'')]
      (True, [[JStr ''toggle([false],null) starts'']]) =
      (Inr JUndefined, (True, [[JStr ''toggle([false],null) starts''],
                              [JStr ''toggle([false],null) ends'']]))"
    unfolding line2 by (simp add: collector_def)
  have run': "fcall thrower [JRef 0, JNull] (False, [[JStr ''thrower([false],null) starts'']]) =
     (Inl (JStr ''boom''), (False, [[JStr ''thrower([false],null) starts'']]))"
    by (simp add: thrower_def)
  from logger_logs_around_call [OF ser starts,
      where v = "JNum 7" and wc = "(True, [[JStr ''toggle([false],null) starts'']])"
        and rd = "Inr JUndefined"
        and wd = "(True, [[JStr ''toggle([false],null) starts''],
                          [JStr ''toggle([false],null) ends'']])"]
    run ends
  have one: "logger toy_stringify toggle collector [JRef 0, JNull] ?s =
     (Inr (JNum 7),
      \<lparr>world = (True, [[JStr ''toggle([false],null) starts''],
                       [JStr ''toggle([false],null) ends'']]),
       events = [CallStringify (JRef 0), CallStringify JNull,
                 CallLog [JStr ''toggle([false],null) starts''],
                 CallFunc [JRef 0, JNull],
                 CallLog [JStr ''toggle([false],null) ends'']]\<rparr>)"
    by (simp add: log_line_def toggle_def)
  from logger_logs_around_call [OF ser starts',
      where e = "JStr ''boom''" and wc = "(False, [[JStr ''thrower([false],null) starts'']])"]
    run'
  have two: "logger toy_stringify thrower collector [JRef 0, JNull] ?s =
     (Inl (JStr ''boom''),
      \<lparr>world = (False, [[JStr ''thrower([false],null) starts'']]),
       events = [CallStringify (JRef 0), CallStringify JNull,
                 CallLog [JStr ''thrower([false],null) starts''],
                 CallFunc [JRef 0, JNull]]\<rparr>)"
    by (simp add: log_line_def thrower_def)
  from ser starts [unfolded line1] run one run' two show ?thesis
    by simp
qed

text \<open>
  The claim as it was stated promises \<open>func\<close>'s value whenever \<open>func\<close> returns. Here
  \<open>func\<close> returns \<open>7\<close>, the log function throws on its second call, and the wrapper throws.
\<close>

theorem logger_returns_result_counterexample:
  "fcall toggle [JRef 0] (False, [[JStr ''toggle([false]) starts'']]) =
     (Inr (JNum 7), (True, [[JStr ''toggle([false]) starts'']])) \<and>
   logger toy_stringify toggle log_once [JRef 0] \<lparr>world = (False, []), events = []\<rparr> =
     (Inl (JStr ''log failed''),
      \<lparr>world = (True, [[JStr ''toggle([false]) starts'']]),
       events = [CallStringify (JRef 0),
                 CallLog [JStr ''toggle([false]) starts''],
                 CallFunc [JRef 0],
                 CallLog [JStr ''toggle([false]) ends'']]\<rparr>)"
  by (simp add: logger_def call_fn_def invoke_def log_line_def toy_stringify_def
      toggle_def log_once_def)

text \<open>
  Claim C10. The arguments are serialised once, before anything is logged and before
  \<open>func\<close> runs: in every run whose serialisation succeeds, the calls recorded are the
  serialisations of all arguments, in order, followed by the \<open>starts\<close> line, then possibly
  the call of \<open>func\<close>, then possibly the \<open>ends\<close> line, and both lines carry the one string
  computed from the world as it was before \<open>func\<close> ran, whatever \<open>func\<close> does to the
  world. If the log function throws on the \<open>starts\<close> line, the wrapper throws the same
  value, and neither a call of \<open>func\<close> nor an \<open>ends\<close> line follows.
\<close>

theorem logger_serialises_first:
  assumes ser: "array_map stringify args (world s) = (Inr strs, wa)"
    and run: "logger stringify func logFunc args s = (r, s')"
  shows "\<exists>rest.
           events s' = events s @ map CallStringify args @ rest \<and>
           (rest = [CallLog [JStr (log_line (fname func) (join strs '','') ''starts'')]] \<or>
            rest = [CallLog [JStr (log_line (fname func) (join strs '','') ''starts'')],
                    CallFunc args] \<or>
            rest = [CallLog [JStr (log_line (fname func) (join strs '','') ''starts'')],
                    CallFunc args,
                    CallLog [JStr (log_line (fname func) (join strs '','') ''ends'')]]) \<and>
           (fcall logFunc [JStr (log_line (fname func) (join strs '','') ''starts'')] wa
                      = (Inl e, wb) \<longrightarrow>
                r = Inl e \<and> world s' = wb \<and>
                rest = [CallLog [JStr (log_line (fname func) (join strs '','') ''starts'')]])"
proof -
  let ?starts = "[JStr (log_line (fname func) (join strs '','') ''starts'')]"
  let ?ends = "[JStr (log_line (fname func) (join strs '','') ''ends'')]"
  let ?sa = "\<lparr>world = wa, events = events s @ map CallStringify args\<rparr>"
  obtain rb wb' where l1: "fcall logFunc ?starts wa = (rb, wb')"
    by (cases "fcall logFunc ?starts wa")
  obtain rc wc where f: "fcall func args wb' = (rc, wc)"
    by (cases "fcall func args wb'")
  obtain rd wd where l2: "fcall logFunc ?ends wc = (rd, wd)"
    by (cases "fcall logFunc ?ends wc")
  from l1 have c1: "call_fn CallLog logFunc ?starts ?sa =
      (rb, \<lparr>world = wb', events = events ?sa @ [CallLog ?starts]\<rparr>)"
    by (simp add: call_fn_returns)
  from f have c2: "call_fn CallFunc func args
        \<lparr>world = wb', events = events ?sa @ [CallLog ?starts]\<rparr> =
      (rc, \<lparr>world = wc, events = (events ?sa @ [CallLog ?starts]) @ [CallFunc args]\<rparr>)"
    by (simp add: call_fn_returns)
  from l2 have c3: "call_fn CallLog logFunc ?ends
        \<lparr>world = wc, events = (events ?sa @ [CallLog ?starts]) @ [CallFunc args]\<rparr> =
      (rd, \<lparr>world = wd,
            events = ((events ?sa @ [CallLog ?starts]) @ [CallFunc args]) @ [CallLog ?ends]\<rparr>)"
    by (simp add: call_fn_returns)
  show ?thesis
    using run array_map_recorded [OF ser] c1 c2 c3 l1
    by (cases rb; cases rc; cases rd) (auto simp: logger_def Let_def)
qed

theorem logger_serialises_first_witness:
  "array_map toy_stringify [JRef 0] (world \<lparr>world = (False, []), events = []\<rparr>) =
     (Inr [Some ''[false]''], (False, [])) \<and>
   array_map toy_stringify [JRef 0] (True, []) = (Inr [Some ''[true]''], (True, [])) \<and>
   logger toy_stringify toggle collector [JRef 0] \<lparr>world = (False, []), events = []\<rparr> =
     (Inr (JNum 7),
      \<lparr>world = (True, [[JStr ''toggle([false]) starts''], [JStr ''toggle([false]) ends'']]),
       events = [CallStringify (JRef 0),
                 CallLog [JStr ''toggle([false]) starts''],
                 CallFunc [JRef 0],
                 CallLog [JStr ''toggle([false]) ends'']]\<rparr>) \<and>
   fcall broken_log [JStr ''toggle([false]) starts''] (False, []) =
     (Inl (JStr ''log failed''), (False, [])) \<and>
   logger toy_stringify toggle broken_log [JRef 0] \<lparr>world = (False, []), events = []\<rparr> =
     (Inl (JStr ''log failed''),
      \<lparr>world = (False, []),
       events = [CallStringify (JRef 0), CallLog [JStr ''toggle([false]) starts'']]\<rparr>)"
proof -
  let ?s = "\<lparr>world = (False, []), events = []\<rparr> :: logworld jsstate"
  have ser: "array_map toy_stringify [JRef 0] (world ?s) = (Inr [Some ''[false]''], (False, []))"
    by (simp add: toy_stringify_def)
  have ser': "array_map toy_stringify [JRef 0] (True, []) = (Inr [Some ''[true]''], (True, []))"
    by (simp add: toy_stringify_def)
  have one: "logger toy_stringify toggle collector [JRef 0] ?s =
     (Inr (JNum 7),
      \<lparr>world = (True, [[JStr ''toggle([false]) starts''], [JStr ''toggle([false]) ends'']]),
       events = [CallStringify (JRef 0),
                 CallLog [JStr ''toggle([false]) starts''],
                 CallFunc [JRef 0],
                 CallLog [JStr ''toggle([false]) ends'']]\<rparr>)"
    by (simp add: logger_def call_fn_def invoke_def log_line_def toy_stringify_def
        toggle_def collector_def)
  have two: "logger toy_stringify toggle broken_log [JRef 0] ?s =
     (Inl (JStr ''log failed''),
      \<lparr>world = (False, []),
       events = [CallStringify (JRef 0), CallLog [JStr ''toggle([false]) starts'']]\<rparr>)"
    by (simp add: logger_def call_fn_def invoke_def log_line_def toy_stringify_def
        toggle_def broken_log_def)
  have fails: "fcall broken_log [JStr ''toggle([false]) starts''] (False, []) =
     (Inl (JStr ''log failed''), (False, []))"
    by (simp add: broken_log_def)
  from logger_serialises_first [OF ser one] logger_serialises_first [OF ser two]
    ser ser' one two fails
  show ?thesis by simp
qed

section \<open>Properties of partialUsingArguments\<close>

text \<open>
  Claim C7. Calling the function that \<open>partialUsingArguments fn args1\<close> returns with
  \<open>args2\<close> is one call of \<open>fn\<close> on \<open>args1\<close> followed by \<open>args2\<close>, with the outcome and
  the effect of that call. So it does not matter where the argument list is cut between
  the two stages; in particular one argument first and three later is the same as all
  four first and none later.
\<close>

theorem partialUsingArguments_concatenates:
  "partialUsingArguments fn args1 args2 s =
     (fst (fcall fn (args1 @ args2) (world s)),
      \<lparr>world = snd (fcall fn (args1 @ args2) (world s)),
       events = events s @ [CallFunc (args1 @ args2)]\<rparr>) \<and>
   partialUsingArguments fn xs (ys @ zs) s = partialUsingArguments fn (xs @ ys) zs s \<and>
   partialUsingArguments fn [a] [b, c, d] s = partialUsingArguments fn [a, b, c, d] [] s"
  by (simp add: partialUsingArguments_def call_fn_def invoke_def split: prod.splits)

lemma partialUsingArguments_example:
  "partialUsingArguments concat4 [JStr ''a''] [JStr ''b'', JStr ''c'', JStr ''d'']
       \<lparr>world = (), events = []\<rparr> =
     (Inr (JStr ''abcd''),
      \<lparr>world = (), events = [CallFunc [JStr ''a'', JStr ''b'', JStr ''c'', JStr ''d'']]\<rparr>)"
  and "partialUsingArguments concat4 [JStr ''a'', JStr ''b'', JStr ''c'', JStr ''d''] []
       \<lparr>world = (), events = []\<rparr> =
     (Inr (JStr ''abcd''),
      \<lparr>world = (), events = [CallFunc [JStr ''a'', JStr ''b'', JStr ''c'', JStr ''d'']]\<rparr>)"
  by (simp_all add: partialUsingArguments_def call_fn_def invoke_def concat4_def)

section \<open>Properties of getIdGeneratorFunction\<close>

lemma generator_eq:
  "generator N a st = (cells st a, st\<lparr>cells := (cells st)(a := increment N (cells st a))\<rparr>)"
  by (simp add: generator_def increment_def Let_def)

lemma results_of_call_generators:
  "results_of g (fst (call_generators N sched st)) =
     map (\<lambda>j. (increment N ^^ j) (cells st g)) [0..<count_list sched g]"
proof (induction sched arbitrary: st)
  case Nil
  show ?case by (simp add: results_of_def)
next
  case (Cons h sched)
  let ?st' = "st\<lparr>cells := (cells st)(h := increment N (cells st h))\<rparr>"
  have run: "fst (call_generators N (h # sched) st) =
               (h, cells st h) # fst (call_generators N sched ?st')"
    by (simp add: generator_eq split: prod.splits)
  show ?case
  proof (cases "h = g")
    case True
    have "results_of g (fst (call_generators N (h # sched) st)) =
            cells st g # results_of g (fst (call_generators N sched ?st'))"
      unfolding run results_of_def using True by simp
    also have "results_of g (fst (call_generators N sched ?st')) =
            map (\<lambda>j. (increment N ^^ j) (increment N (cells st g))) [0..<count_list sched g]"
      using True by (simp add: Cons.IH)
    also have "cells st g #
            map (\<lambda>j. (increment N ^^ j) (increment N (cells st g))) [0..<count_list sched g] =
            map (\<lambda>j. (increment N ^^ j) (cells st g)) [0..<Suc (count_list sched g)]"
      by (subst upt_shift) (simp add: comp_def funpow_swap1 del: upt_Suc)
    finally show ?thesis using True by simp
  next
    case False
    have "results_of g (fst (call_generators N (h # sched) st)) =
            results_of g (fst (call_generators N sched ?st'))"
      unfolding run results_of_def using False by simp
    with False show ?thesis by (simp add: Cons.IH)
  qed
qed

lemma call_generators_same:
  "fst (call_generators N (replicate n g) st) =
     map (\<lambda>j. (g, (increment N ^^ j) (cells st g))) [0..<n]"
proof (induction n arbitrary: st)
  case 0
  show ?case by simp
next
  case (Suc n)
  let ?st' = "st\<lparr>cells := (cells st)(g := increment N (cells st g))\<rparr>"
  have "fst (call_generators N (replicate (Suc n) g) st) =
          (g, cells st g) # fst (call_generators N (replicate n g) ?st')"
    by (simp add: generator_eq split: prod.splits)
  also have "\<dots> = (g, cells st g) #
          map (\<lambda>j. (g, (increment N ^^ j) (increment N (cells st g)))) [0..<n]"
    by (simp add: Suc.IH)
  also have "\<dots> = map (\<lambda>j. (g, (increment N ^^ j) (cells st g))) [0..<Suc n]"
    by (subst upt_shift) (simp add: comp_def funpow_swap1 del: upt_Suc)
  finally show ?case .
qed

text \<open>When every increment on the way adds exactly one, so do all of them together.\<close>

lemma exact_increments:
  "\<forall>j<k. val (increment N ((increment N ^^ j) v)) = val ((increment N ^^ j) v) + 1 \<Longrightarrow>
     val ((increment N ^^ k) v) = val v + real k"
  by (induction k) simp_all

text \<open>
  Claim C8, as the code has it. A generator made with \<open>startFrom\<close> returns \<open>startFrom\<close> on
  its first call, and on each call returns the counter and then adds one to it with the
  addition of the language: its \<open>k\<close>-th call returns \<open>startFrom\<close> incremented \<open>k - 1\<close> times.
  Read as a real number that is \<open>startFrom + k - 1\<close> whenever each of these increments
  adds exactly one. A second generator, made afterwards, is a different generator with a
  counter of its own: in any schedule of calls, the results of each generator are its
  start value, that incremented once, and so on, as many as the schedule has calls of it,
  whatever calls of other generators come in between. In the doubles, incrementing an
  integer \<open>z\<close> any number \<open>i\<close> of times is exact as long as \<open>\<bar>z\<bar> + i\<close> is at most \<open>2^53\<close>.
\<close>

theorem id_generators_count_independently:
  assumes make: "getIdGeneratorFunction startFrom st = (g, st')"
  shows "(0 < k \<and> k \<le> n \<longrightarrow>
            fst (call_generators N (replicate n g) st') ! (k - 1) =
              (g, (increment N ^^ (k - 1)) startFrom)) \<and>
         (0 < k \<and> k \<le> n \<and>
          (\<forall>j<k - 1. val (increment N ((increment N ^^ j) startFrom)) =
                        val ((increment N ^^ j) startFrom) + 1) \<longrightarrow>
            val (snd (fst (call_generators N (replicate n g) st') ! (k - 1))) =
              val startFrom + real k - 1) \<and>
         (getIdGeneratorFunction startFrom' st' = (h, st'') \<longrightarrow>
            h \<noteq> g \<and>
            results_of g (fst (call_generators N sched st'')) =
              map (\<lambda>j. (increment N ^^ j) startFrom) [0..<count_list sched g] \<and>
            results_of h (fst (call_generators N sched st'')) =
              map (\<lambda>j. (increment N ^^ j) startFrom') [0..<count_list sched h]) \<and>
         (\<bar>z\<bar> + int i \<le> 2 ^ 53 \<longrightarrow>
            (increment binary64 ^^ i) (Finite (of_int z)) = Finite (of_int z + real i))"
proof (intro conjI impI)
  from make have g: "g = fresh st" and cell: "cells st' g = startFrom" "fresh st' = Suc g"
    by (auto simp: getIdGeneratorFunction_def Let_def)
  {
    assume "0 < k \<and> k \<le> n"
    then have "k - 1 < n" by auto
    then show "fst (call_generators N (replicate n g) st') ! (k - 1) =
        (g, (increment N ^^ (k - 1)) startFrom)"
      by (simp add: call_generators_same cell)
  }
  {
    assume a: "0 < k \<and> k \<le> n \<and>
          (\<forall>j<k - 1. val (increment N ((increment N ^^ j) startFrom)) =
                        val ((increment N ^^ j) startFrom) + 1)"
    then have "k - 1 < n" and "real (k - 1) = real k - 1" by auto
    with a exact_increments [of "k - 1" val N startFrom]
    show "val (snd (fst (call_generators N (replicate n g) st') ! (k - 1))) =
        val startFrom + real k - 1"
      by (simp add: call_generators_same cell)
  }
  assume make': "getIdGeneratorFunction startFrom' st' = (h, st'')"
  then have h: "h = Suc g" and cell': "cells st'' h = startFrom'" "cells st'' g = startFrom"
    using cell by (auto simp: getIdGeneratorFunction_def Let_def)
  show "h \<noteq> g" using h by simp
  show "results_of g (fst (call_generators N sched st'')) =
          map (\<lambda>j. (increment N ^^ j) startFrom) [0..<count_list sched g]"
    by (simp add: results_of_call_generators cell')
  show "results_of h (fst (call_generators N sched st'')) =
          map (\<lambda>j. (increment N ^^ j) startFrom') [0..<count_list sched h]"
    by (simp add: results_of_call_generators cell')
next
  assume "\<bar>z\<bar> + int i \<le> 2 ^ 53"
  then show "(increment binary64 ^^ i) (Finite (of_int z)) = Finite (of_int z + real i)"
    by (rule increments_binary64_int)
qed

lemma increment_binary64_values:
  "increment binary64 (Finite 4) = Finite 5" "increment binary64 (Finite 5) = Finite 6"
  "increment binary64 (Finite 6) = Finite 7" "increment binary64 (Finite 10) = Finite 11"
  by (simp_all add: increment_def binary64_simps)

theorem id_generators_count_independently_witness:
  "getIdGeneratorFunction (Finite 4) empty_store =
     (0, \<lparr>cells = (\<lambda>a. Finite 0)(0 := Finite 4), fresh = 1\<rparr>) \<and>
   (0 < (3::nat) \<and> (3::nat) \<le> 5 \<and>
    fst (call_generators binary64 (replicate 5 0)
           \<lparr>cells = (\<lambda>a. Finite 0)(0 := Finite 4), fresh = 1\<rparr>) ! (3 - 1) = (0, Finite 6) \<and>
    real_of (Finite 6) = real_of (Finite 4) + real 3 - 1) \<and>
   getIdGeneratorFunction (Finite 10) \<lparr>cells = (\<lambda>a. Finite 0)(0 := Finite 4), fresh = 1\<rparr>
     = (1, \<lparr>cells = (\<lambda>a. Finite 0)(0 := Finite 4, 1 := Finite 10), fresh = 2\<rparr>) \<and>
   (1::nat) \<noteq> 0 \<and>
   map snd (fst (call_generators binary64 [0, 1, 0, 0, 0, 1]
       \<lparr>cells = (\<lambda>a. Finite 0)(0 := Finite 4, 1 := Finite 10), fresh = 2\<rparr>)) =
     [Finite 4, Finite 10, Finite 5, Finite 6, Finite 7, Finite 11] \<and>
   results_of 0 (fst (call_generators binary64 [0, 1, 0, 0, 0, 1]
       \<lparr>cells = (\<lambda>a. Finite 0)(0 := Finite 4, 1 := Finite 10), fresh = 2\<rparr>)) =
     [Finite 4, Finite 5, Finite 6, Finite 7] \<and>
   results_of 1 (fst (call_generators binary64 [0, 1, 0, 0, 0, 1]
       \<lparr>cells = (\<lambda>a. Finite 0)(0 := Finite 4, 1 := Finite 10), fresh = 2\<rparr>)) =
     [Finite 10, Finite 11] \<and>
   \<bar>4\<bar> + int 2 \<le> 2 ^ 53 \<and>
   (increment binary64 ^^ 2) (Finite (of_int 4)) = Finite (of_int 4 + real 2)"
proof -
  let ?st' = "\<lparr>cells = (\<lambda>a. Finite 0)(0 := Finite 4), fresh = 1\<rparr> :: double store"
  let ?st'' = "\<lparr>cells = (\<lambda>a. Finite 0)(0 := Finite 4, 1 := Finite 10), fresh = 2\<rparr> :: double store"
  have make: "getIdGeneratorFunction (Finite 4) empty_store = (0, ?st')"
    by (simp add: getIdGeneratorFunction_def empty_store_def)
  have make': "getIdGeneratorFunction (Finite 10) ?st' = (1, ?st'')"
    by (simp add: getIdGeneratorFunction_def)
  have run: "map snd (fst (call_generators binary64 [0, 1, 0, 0, 0, 1] ?st'')) =
      [Finite 4, Finite 10, Finite 5, Finite 6, Finite 7, Finite 11]"
    by (simp add: generator_eq increment_binary64_values)
  have exact: "\<forall>j<3 - 1. real_of (increment binary64 ((increment binary64 ^^ j) (Finite 4))) =
      real_of ((increment binary64 ^^ j) (Finite 4)) + 1"
    by (simp add: less_Suc_eq numeral_2_eq_2 increment_binary64_values)
  note inst = id_generators_count_independently [OF make,
      where k = 3 and n = 5 and N = binary64 and val = real_of
        and startFrom' = "Finite 10" and h = 1 and st'' = ?st''
        and sched = "[0, 1, 0, 0, 0, 1]" and z = 4 and i = 2]
  have small: "\<bar>4\<bar> + int 2 \<le> 2 ^ 53" by simp
  with inst [THEN conjunct2, THEN conjunct2, THEN conjunct2]
  have int_exact: "(increment binary64 ^^ 2) (Finite (of_int 4)) = Finite (of_int 4 + real 2)"
    by blast
  from make make' run exact inst [THEN conjunct1]
    inst [THEN conjunct2, THEN conjunct1] inst [THEN conjunct2, THEN conjunct2, THEN conjunct1]
  have "getIdGeneratorFunction (Finite 4) empty_store = (0, ?st') \<and>
   (0 < (3::nat) \<and> (3::nat) \<le> 5 \<and>
    fst (call_generators binary64 (replicate 5 0) ?st') ! (3 - 1) = (0, Finite 6) \<and>
    real_of (Finite 6) = real_of (Finite 4) + real 3 - 1) \<and>
   getIdGeneratorFunction (Finite 10) ?st' = (1, ?st'') \<and>
   (1::nat) \<noteq> 0 \<and>
   map snd (fst (call_generators binary64 [0, 1, 0, 0, 0, 1] ?st'')) =
     [Finite 4, Finite 10, Finite 5, Finite 6, Finite 7, Finite 11] \<and>
   results_of 0 (fst (call_generators binary64 [0, 1, 0, 0, 0, 1] ?st'')) =
     [Finite 4, Finite 5, Finite 6, Finite 7] \<and>
   results_of 1 (fst (call_generators binary64 [0, 1, 0, 0, 0, 1] ?st'')) =
     [Finite 10, Finite 11]"
    by (simp add: upt_conv_Cons numeral_2_eq_2 increment_binary64_values)
  with small int_exact show ?thesis by blast
qed

text \<open>
  The claim as it was stated gives \<open>startFrom + k - 1\<close> for every number. From \<open>2^53\<close> the
  sum \<open>2^53 + 1\<close> rounds back to \<open>2^53\<close>: the generator returns \<open>2^53\<close> on every call, and its
  third call does not return \<open>2^53 + 2\<close>.
\<close>

theorem id_generator_counterexample:
  "fst (getIdGeneratorFunction (Finite (2 ^ 53)) empty_store) = 0 \<and>
   map snd (fst (call_generators binary64 [0, 0, 0]
       (snd (getIdGeneratorFunction (Finite (2 ^ 53)) empty_store)))) =
     [Finite (2 ^ 53), Finite (2 ^ 53), Finite (2 ^ 53)] \<and>
   Finite (2 ^ 53) \<noteq> Finite (2 ^ 53 + 3 - 1)"
proof -
  have stays: "increment binary64 (Finite 9007199254740992) = Finite 9007199254740992"
    using to_double_tie by (simp add: increment_def binary64_simps)
  show ?thesis
    by (simp add: getIdGeneratorFunction_def empty_store_def generator_eq stays)
qed

end
